theory Spec2Isabelle
  imports Complex_Main "HOL-Library.Sublist"
begin

section \<open>HTTP responses as the client sees them\<close>

text \<open>
  A \<open>Response\<close> is modelled by the parts the code reads or sets: the status, the body text
  and the \<open>Content-Type\<close> header. \<open>response.ok\<close> is the platform's test \<open>200 \<le> status \<le> 299\<close>.
  A call of \<open>fetch\<close> either resolves with a response or rejects (network error).
\<close>

record response =
  status :: nat
  body :: string
  content_type :: "string option"

definition ok :: "response \<Rightarrow> bool" where
  "ok r = (200 \<le> status r \<and> status r \<le> 299)"

datatype fetch_result = Resolved response | Rejected

section \<open>The sync queue of offline.js\<close>

text \<open>
  The object store \<open>sync_queue\<close> is created with \<open>{ keyPath: 'id', autoIncrement: true }\<close>:
  a record added without an \<open>id\<close> gets the current value of the store's key generator written
  into its \<open>id\<close> field, and the generator moves on by one. \<open>getAll()\<close> returns the records in
  ascending key order, \<open>delete(k)\<close> removes the record whose key is \<open>k\<close>.
  The database is open (\<open>db\<close> is set) and its transactions complete, so the promises
  of \<open>addToSyncQueue\<close>, \<open>getPendingSyncs\<close> and \<open>removeFromSyncQueue\<close> resolve.
  The payload type \<open>'p\<close> is the JSON value handed to \<open>addToSyncQueue\<close>.
\<close>

record 'p sync_item =
  item_id :: nat
  action :: string
  endpoint :: string
  data :: 'p
  timestamp :: int
  attempts :: nat

record 'p sync_store =
  rows :: "'p sync_item list"
  key_gen :: nat

definition empty_store :: "'p sync_store" where
  "empty_store = \<lparr>rows = [], key_gen = 1\<rparr>"

definition store_add ::
  "'p sync_store \<Rightarrow> string \<Rightarrow> string \<Rightarrow> 'p \<Rightarrow> int \<Rightarrow> nat \<Rightarrow> 'p sync_store" where
  "store_add st a e d t n =
     \<lparr>rows = rows st @ [\<lparr>item_id = key_gen st, action = a, endpoint = e, data = d,
                          timestamp = t, attempts = n\<rparr>],
      key_gen = key_gen st + 1\<rparr>"

definition store_getAll :: "'p sync_store \<Rightarrow> 'p sync_item list" where
  "store_getAll st = sort_key item_id (rows st)"

definition store_delete :: "'p sync_store \<Rightarrow> nat \<Rightarrow> 'p sync_store" where
  "store_delete st k = st\<lparr>rows := filter (\<lambda>r. item_id r \<noteq> k) (rows st)\<rparr>"

text \<open>
  \<open>addToSyncQueue(action, endpoint, data)\<close>; \<open>now\<close> is the value of \<open>Date.now()\<close>.
\<close>

definition addToSyncQueue ::
  "int \<Rightarrow> 'p sync_store \<Rightarrow> string \<Rightarrow> string \<Rightarrow> 'p \<Rightarrow> 'p sync_store" where
  "addToSyncQueue now st act ep d = store_add st act ep d now 0"

definition getPendingSyncs :: "'p sync_store \<Rightarrow> 'p sync_item list" where
  "getPendingSyncs st = store_getAll st"

definition removeFromSyncQueue :: "'p sync_store \<Rightarrow> nat \<Rightarrow> 'p sync_store" where
  "removeFromSyncQueue st k = store_delete st k"

text \<open>
  The state a drain works on: \<open>navigator.onLine\<close>, the queue, the world behind \<open>fetch\<close>,
  the two counters of \<open>syncPendingData\<close>, and a trace of the calls of \<open>fetch\<close> in the order
  they were issued, each with the entry it was made for and its result.
  \<open>net w item\<close> is what \<open>fetch(item.endpoint, { method: item.action, body: JSON.stringify(item.data) })\<close>
  does in world \<open>w\<close>: its result and the world afterwards.
\<close>

record ('p, 'w) drain_state =
  queue :: "'p sync_store"
  world :: 'w
  synced :: nat
  failed :: nat
  trace :: "('p sync_item \<times> fetch_result) list"

type_synonym ('p, 'w) network = "'w \<Rightarrow> 'p sync_item \<Rightarrow> fetch_result \<times> 'w"

definition acked :: "fetch_result \<Rightarrow> bool" where
  "acked r = (case r of Resolved resp \<Rightarrow> ok resp | Rejected \<Rightarrow> False)"

text \<open>One turn of the \<open>for (const item of pending)\<close> loop.\<close>

definition sync_item_step ::
  "('p, 'w) network \<Rightarrow> 'p sync_item \<Rightarrow> ('p, 'w) drain_state \<Rightarrow> ('p, 'w) drain_state" where
  "sync_item_step net item s =
     (let (r, w') = net (world s) item;
          s1 = s\<lparr>world := w', trace := trace s @ [(item, r)]\<rparr>
      in case r of
           Resolved resp \<Rightarrow>
             if ok resp
             then s1\<lparr>queue := removeFromSyncQueue (queue s1) (item_id item),
                     synced := synced s1 + 1\<rparr>
             else s1\<lparr>failed := failed s1 + 1\<rparr>
         | Rejected \<Rightarrow> s1\<lparr>failed := failed s1 + 1\<rparr>)"

fun sync_loop ::
  "('p, 'w) network \<Rightarrow> 'p sync_item list \<Rightarrow> ('p, 'w) drain_state \<Rightarrow> ('p, 'w) drain_state" where
  "sync_loop net [] s = s"
| "sync_loop net (item # rest) s = sync_loop net rest (sync_item_step net item s)"

text \<open>
  \<open>syncPendingData()\<close>: offline it returns \<open>{ synced: 0, failed: 0 }\<close> at once; online it reads
  the pending entries once and walks through them.
\<close>

definition syncPendingData ::
  "('p, 'w) network \<Rightarrow> bool \<Rightarrow> 'p sync_store \<Rightarrow> 'w \<Rightarrow> ('p, 'w) drain_state" where
  "syncPendingData net online q w =
     (let s0 = \<lparr>queue = q, world = w, synced = 0, failed = 0, trace = []\<rparr>
      in if \<not> online then s0 else sync_loop net (getPendingSyncs q) s0)"

text \<open>
  The invariant of a store with a key generator: the keys of the records are strictly
  increasing in insertion order and all below the generator's value.
\<close>

definition store_inv :: "'p sync_store \<Rightarrow> bool" where
  "store_inv st =
     (sorted_wrt (<) (map item_id (rows st)) \<and> list_all (\<lambda>r. item_id r < key_gen st) (rows st))"

text \<open>
  What a walk through the entries \<open>xs\<close> gets from the network, starting in world \<open>w\<close>:
  every entry with the result of its one call of \<open>fetch\<close>.
\<close>

fun results :: "('p, 'w) network \<Rightarrow> 'p sync_item list \<Rightarrow> 'w \<Rightarrow> ('p sync_item \<times> fetch_result) list" where
  "results net [] w = []"
| "results net (item # rest) w = (item, fst (net w item)) # results net rest (snd (net w item))"

subsection \<open>Two invocations of syncPendingData at once\<close>

text \<open>
  \<open>syncPendingData\<close> is an \<open>async\<close> function: it runs until its next \<open>await\<close> and is
  resumed when the awaited promise settles; between two such segments any other task of the
  page may run. Its awaits are \<open>getPendingSyncs()\<close>, \<open>fetch(...)\<close> and
  \<open>removeFromSyncQueue(item.id)\<close>. A task is at one of these points:
  launched and not yet run, waiting for the pending entries, waiting for the response to the
  request it sent for \<open>item\<close> (with \<open>rest\<close> still to come), waiting for the removal of \<open>item\<close>,
  or returned. The file has no variable that one invocation sets and another reads: the
  only shared state is the queue in IndexedDB, the network and \<open>navigator.onLine\<close>.
  \<open>submitted\<close> lists the calls of \<open>fetch\<close> in the order they were issued, each with the
  invocation that issued it.
\<close>

datatype 'p pc =
    Start
  | Reading
  | AwaitFetch "'p sync_item" "'p sync_item list"
  | AwaitRemove "'p sync_item" "'p sync_item list"
  | Finished

record 'p task =
  pc :: "'p pc"
  t_synced :: nat
  t_failed :: nat

record ('p, 'w) shared =
  online :: bool
  db :: "'p sync_store"
  net_world :: 'w
  submitted :: "(bool \<times> 'p sync_item) list"

definition new_task :: "'p task" where
  "new_task = \<lparr>pc = Start, t_synced = 0, t_failed = 0\<rparr>"

text \<open>The head of the \<open>for\<close> loop: no entry left, or the request for the next one goes out.\<close>

definition loop_head ::
  "bool \<Rightarrow> 'p sync_item list \<Rightarrow> ('p, 'w) shared \<Rightarrow> 'p task \<Rightarrow> ('p, 'w) shared \<times> 'p task" where
  "loop_head who rest sh t =
     (case rest of
        [] \<Rightarrow> (sh, t\<lparr>pc := Finished\<rparr>)
      | item # rest' \<Rightarrow>
          (sh\<lparr>submitted := submitted sh @ [(who, item)]\<rparr>, t\<lparr>pc := AwaitFetch item rest'\<rparr>))"

text \<open>One segment of invocation \<open>who\<close>: from the settling of the promise it waits for to its next \<open>await\<close>.\<close>

definition task_step ::
  "('p, 'w) network \<Rightarrow> bool \<Rightarrow> ('p, 'w) shared \<Rightarrow> 'p task \<Rightarrow> ('p, 'w) shared \<times> 'p task" where
  "task_step net who sh t =
     (case pc t of
        Start \<Rightarrow> if \<not> online sh then (sh, t\<lparr>pc := Finished\<rparr>) else (sh, t\<lparr>pc := Reading\<rparr>)
      | Reading \<Rightarrow> loop_head who (getPendingSyncs (db sh)) sh t
      | AwaitFetch item rest \<Rightarrow>
          (let (r, w') = net (net_world sh) item;
               sh1 = sh\<lparr>net_world := w'\<rparr>
           in case r of
                Resolved resp \<Rightarrow>
                  if ok resp then (sh1, t\<lparr>pc := AwaitRemove item rest\<rparr>)
                  else loop_head who rest sh1 (t\<lparr>t_failed := t_failed t + 1\<rparr>)
              | Rejected \<Rightarrow> loop_head who rest sh1 (t\<lparr>t_failed := t_failed t + 1\<rparr>))
      | AwaitRemove item rest \<Rightarrow>
          loop_head who rest (sh\<lparr>db := removeFromSyncQueue (db sh) (item_id item)\<rparr>)
            (t\<lparr>t_synced := t_synced t + 1\<rparr>)
      | Finished \<Rightarrow> (sh, t))"

text \<open>
  Two invocations over the same queue. A schedule says whose promise settles next:
  \<open>False\<close> for the first invocation, \<open>True\<close> for the second.
\<close>

record ('p, 'w) two_drains =
  common :: "('p, 'w) shared"
  first :: "'p task"
  second :: "'p task"

definition sched_step ::
  "('p, 'w) network \<Rightarrow> bool \<Rightarrow> ('p, 'w) two_drains \<Rightarrow> ('p, 'w) two_drains" where
  "sched_step net who c =
     (if who
      then (let (sh, t) = task_step net True (common c) (second c) in c\<lparr>common := sh, second := t\<rparr>)
      else (let (sh, t) = task_step net False (common c) (first c) in c\<lparr>common := sh, first := t\<rparr>))"

fun run :: "('p, 'w) network \<Rightarrow> bool list \<Rightarrow> ('p, 'w) two_drains \<Rightarrow> ('p, 'w) two_drains" where
  "run net [] c = c"
| "run net (who # sched) c = run net sched (sched_step net who c)"

definition launch_two :: "bool \<Rightarrow> 'p sync_store \<Rightarrow> 'w \<Rightarrow> ('p, 'w) two_drains" where
  "launch_two onl q w =
     \<lparr>common = \<lparr>online = onl, db = q, net_world = w, submitted = []\<rparr>,
      first = new_task, second = new_task\<rparr>"

text \<open>The entries invocation \<open>who\<close> has sent to the network so far, and how often id \<open>k\<close> was sent at all.\<close>

definition subs :: "bool \<Rightarrow> ('p, 'w) shared \<Rightarrow> 'p sync_item list" where
  "subs who sh = map snd (filter (\<lambda>p. fst p = who) (submitted sh))"

definition submissions :: "nat \<Rightarrow> ('p, 'w) shared \<Rightarrow> nat" where
  "submissions k sh = length (filter (\<lambda>p. item_id (snd p) = k) (submitted sh))"

definition strict_ids :: "'p sync_item list \<Rightarrow> bool" where
  "strict_ids xs = sorted_wrt (<) (map item_id xs)"

fun task_inv :: "bool \<Rightarrow> ('p, 'w) shared \<Rightarrow> 'p pc \<Rightarrow> bool" where
  "task_inv who sh Start = (subs who sh = [])"
| "task_inv who sh Reading = (subs who sh = [])"
| "task_inv who sh (AwaitFetch item rest) = strict_ids (subs who sh @ rest)"
| "task_inv who sh (AwaitRemove item rest) = strict_ids (subs who sh @ rest)"
| "task_inv who sh Finished = strict_ids (subs who sh)"

definition two_inv :: "('p, 'w) two_drains \<Rightarrow> bool" where
  "two_inv c =
     (store_inv (db (common c)) \<and> task_inv False (common c) (pc (first c))
      \<and> task_inv True (common c) (pc (second c)))"

text \<open>
  The first invocation has returned, and the queue, the network, its two counters and the
  requests sent are those of the drain state \<open>S\<close>.
\<close>

definition agrees :: "('p, 'w) two_drains \<Rightarrow> ('p, 'w) drain_state \<Rightarrow> bool" where
  "agrees c S =
     (pc (first c) = Finished \<and> db (common c) = queue S \<and> net_world (common c) = world S
      \<and> t_synced (first c) = synced S \<and> t_failed (first c) = failed S
      \<and> map snd (submitted (common c)) = map fst (trace S))"

section \<open>The fetch handler of sw.js\<close>

text \<open>
  A request as the handler reads it: the URL it was made for (the key under which the Cache
  API stores a response), \<open>hostname\<close> and \<open>pathname\<close> of \<open>new URL(event.request.url)\<close>,
  the method and the \<open>Accept\<close> header.
\<close>

record request =
  url :: string
  hostname :: string
  pathname :: string
  http_method :: string
  accept :: "string option"

text \<open>
  The Cache API: a cache maps request URLs to responses. \<open>cache.match\<close> finds nothing for a
  request whose method is not GET, and \<open>cache.put\<close> rejects such a request, and a response
  of status 206, and stores nothing (the handler does not await \<open>put\<close>, so that rejection
  reaches nobody).
  \<open>caches\<close> holds the named caches in the order they were created; \<open>caches.open\<close> creates a
  missing cache, \<open>caches.match\<close> asks the caches in that order.
\<close>

type_synonym cache = "string \<rightharpoonup> response"
type_synonym cache_storage = "(string \<times> cache) list"

definition CACHE_NAME :: string where "CACHE_NAME = ''field-app-v1''"

definition TILE_CACHE :: string where "TILE_CACHE = ''map-tiles-v1''"

definition DATA_CACHE :: string where "DATA_CACHE = ''project-data-v1''"

definition cache_match :: "cache \<Rightarrow> request \<Rightarrow> response option" where
  "cache_match c req = (if http_method req = ''GET'' then c (url req) else None)"

definition cache_put :: "cache \<Rightarrow> request \<Rightarrow> response \<Rightarrow> cache" where
  "cache_put c req resp =
     (if http_method req = ''GET'' \<and> status resp \<noteq> 206 then c(url req \<mapsto> resp) else c)"

definition caches_open :: "string \<Rightarrow> cache_storage \<Rightarrow> cache_storage" where
  "caches_open name cs = (case map_of cs name of Some c \<Rightarrow> cs | None \<Rightarrow> cs @ [(name, Map.empty)])"

definition cache_of :: "string \<Rightarrow> cache_storage \<Rightarrow> cache" where
  "cache_of name cs = (case map_of cs name of Some c \<Rightarrow> c | None \<Rightarrow> Map.empty)"

definition caches_put :: "string \<Rightarrow> request \<Rightarrow> response \<Rightarrow> cache_storage \<Rightarrow> cache_storage" where
  "caches_put name req resp cs =
     map (\<lambda>(n, c). if n = name then (n, cache_put c req resp) else (n, c)) (caches_open name cs)"

fun caches_match :: "cache_storage \<Rightarrow> request \<Rightarrow> response option" where
  "caches_match [] req = None"
| "caches_match ((n, c) # cs) req =
     (case cache_match c req of Some r \<Rightarrow> Some r | None \<Rightarrow> caches_match cs req)"

text \<open>
  What the handler hands to \<open>event.respondWith\<close>: a response, or a promise that fails
  (rejected, or resolved with \<open>undefined\<close>), which the page sees as a network error.
  \<open>fetched\<close> lists the requests the handler sent to the network.
\<close>

datatype sw_error = NetworkError

record sw_result =
  reply :: "sw_error + response"
  caches_after :: cache_storage
  fetched :: "request list"

definition tile_placeholder :: response where
  "tile_placeholder = \<lparr>status = 404, body = [], content_type = Some ''text/plain;charset=UTF-8''\<rparr>"

definition offline_marker :: response where
  \<open>offline_marker =
     \<lparr>status = 200, body = ''{"offline":true,"error":"No connection"}'',
      content_type = Some ''application/json''\<rparr>\<close>

definition offline_503 :: response where
  "offline_503 = \<lparr>status = 503, body = ''Offline'', content_type = Some ''text/plain;charset=UTF-8''\<rparr>"

definition root_request :: request where
  "root_request = \<lparr>url = ''/'', hostname = [], pathname = ''/'', http_method = ''GET'', accept = None\<rparr>"

definition is_tile_host :: "string \<Rightarrow> bool" where
  "is_tile_host h =
     (sublist ''tile.openstreetmap.org'' h \<or> sublist ''arcgisonline.com'' h
      \<or> sublist ''server.arcgisonline.com'' h)"

definition is_api_path :: "string \<Rightarrow> bool" where
  "is_api_path p = prefix ''/api/'' p"

definition accepts_html :: "request \<Rightarrow> bool" where
  "accepts_html req = (case accept req of None \<Rightarrow> False | Some a \<Rightarrow> sublist ''text/html'' a)"

definition tile_branch :: "(request \<Rightarrow> fetch_result) \<Rightarrow> cache_storage \<Rightarrow> request \<Rightarrow> sw_result" where
  "tile_branch net cs req =
     (let cs1 = caches_open TILE_CACHE cs
      in case cache_match (cache_of TILE_CACHE cs1) req of
           Some response \<Rightarrow> \<lparr>reply = Inr response, caches_after = cs1, fetched = []\<rparr>
         | None \<Rightarrow>
            (case net req of
               Resolved networkResponse \<Rightarrow>
                 \<lparr>reply = Inr networkResponse,
                  caches_after = caches_put TILE_CACHE req networkResponse cs1, fetched = [req]\<rparr>
             | Rejected \<Rightarrow> \<lparr>reply = Inr tile_placeholder, caches_after = cs1, fetched = [req]\<rparr>))"

definition api_branch :: "(request \<Rightarrow> fetch_result) \<Rightarrow> cache_storage \<Rightarrow> request \<Rightarrow> sw_result" where
  "api_branch net cs req =
     (case net req of
        Resolved response \<Rightarrow>
          \<lparr>reply = Inr response,
           caches_after =
             (if http_method req = ''GET'' \<and> ok response
              then caches_put DATA_CACHE req response cs else cs),
           fetched = [req]\<rparr>
      | Rejected \<Rightarrow>
          (case caches_match cs req of
             Some cached \<Rightarrow> \<lparr>reply = Inr cached, caches_after = cs, fetched = [req]\<rparr>
           | None \<Rightarrow> \<lparr>reply = Inr offline_marker, caches_after = cs, fetched = [req]\<rparr>))"

definition other_branch :: "(request \<Rightarrow> fetch_result) \<Rightarrow> cache_storage \<Rightarrow> request \<Rightarrow> sw_result" where
  "other_branch net cs req =
     (case caches_match cs req of
        Some cached \<Rightarrow> \<lparr>reply = Inr cached, caches_after = cs, fetched = []\<rparr>
      | None \<Rightarrow>
         (case net req of
            Resolved response \<Rightarrow>
              \<lparr>reply = Inr response,
               caches_after =
                 (if ok response \<and> http_method req = ''GET''
                  then caches_put CACHE_NAME req response cs else cs),
               fetched = [req]\<rparr>
          | Rejected \<Rightarrow>
              (if accepts_html req
               then \<lparr>reply = (case caches_match cs root_request of
                                 Some page \<Rightarrow> Inr page | None \<Rightarrow> Inl NetworkError),
                     caches_after = cs, fetched = [req]\<rparr>
               else \<lparr>reply = Inr offline_503, caches_after = cs, fetched = [req]\<rparr>)))"

text \<open>The \<open>fetch\<close> listener: the first test that applies decides, in the order of the file.\<close>

definition fetch_handler :: "(request \<Rightarrow> fetch_result) \<Rightarrow> cache_storage \<Rightarrow> request \<Rightarrow> sw_result" where
  "fetch_handler net cs req =
     (if is_tile_host (hostname req) then tile_branch net cs req
      else if is_api_path (pathname req) then api_branch net cs req
      else other_branch net cs req)"

section \<open>Capturing a GPS point (visit.js and offline.js)\<close>

text \<open>
  The point object built by \<open>saveGPSPoint\<close>. JavaScript numbers are read as real numbers;
  \<open>None\<close> stands for \<open>null\<close> or \<open>undefined\<close>. A timestamp is either the string of
  \<open>new Date().toISOString()\<close> or the number of \<open>Date.now()\<close>.
\<close>

datatype js_time = IsoString string | EpochMillis int

record gps_point =
  label :: string
  lat :: real
  lon :: real
  altitude_m :: "real option"
  elevation_ft :: "int option"
  altitude_accuracy :: "real option"
  accuracy :: "real option"
  point_type :: "string option"
  point_timestamp :: js_time

text \<open>
  A record of the object store \<open>gps_points\<close> (\<open>{ keyPath: 'localId', autoIncrement: true }\<close>):
  the fields of the point and those \<open>saveGPSPointLocal\<close> adds.
\<close>

record stored_gps_point = gps_point +
  project_id :: string
  point_synced :: bool
  localId :: nat

record gps_store =
  gps_rows :: "stored_gps_point list"
  gps_key_gen :: nat

text \<open>
  \<open>saveGPSPointLocal(projectId, point)\<close> stores
  \<open>{ ...point, project_id: projectId, synced: false, timestamp: Date.now() }\<close>:
  the spread copies every field of the point, and the three fields written after it replace
  fields of the same name.
\<close>

definition saveGPSPointLocal :: "int \<Rightarrow> gps_store \<Rightarrow> string \<Rightarrow> gps_point \<Rightarrow> gps_store" where
  "saveGPSPointLocal now st projectId point =
     \<lparr>gps_rows = gps_rows st @
        [\<lparr>label = label point, lat = lat point, lon = lon point,
          altitude_m = altitude_m point, elevation_ft = elevation_ft point,
          altitude_accuracy = altitude_accuracy point, accuracy = accuracy point,
          point_type = point_type point, point_timestamp = EpochMillis now,
          project_id = projectId, point_synced = False, localId = gps_key_gen st\<rparr>],
      gps_key_gen = gps_key_gen st + 1\<rparr>"

text \<open>
  The reading kept in \<open>currentGPS\<close>, and what \<open>saveGPSPoint\<close> reads besides: the form
  fields (\<open>parseFloat\<close> gives \<open>None\<close> for \<open>NaN\<close>), \<open>pendingGPSLabel\<close>, \<open>projectId\<close>,
  \<open>navigator.onLine\<close>, whether \<open>window.OfflineManager\<close> exists, the clock
  (\<open>new Date().toISOString()\<close> in \<open>saveGPSPoint\<close>, \<open>Date.now()\<close> in \<open>saveGPSPointLocal\<close> and in
  \<open>addToSyncQueue\<close>) and the result of the POST.
\<close>

record gps_reading =
  altitude :: "real option"
  altitudeAccuracy :: "real option"
  reading_accuracy :: "real option"

record capture =
  form_label :: string
  form_lat :: "real option"
  form_lon :: "real option"
  currentGPS :: "gps_reading option"
  pendingGPSLabel :: "string option"
  projectId :: string
  onLine :: bool
  has_OfflineManager :: bool
  iso_now :: string
  now_local :: int
  now_queue :: int
  post_result :: fetch_result

record visit_state =
  gps_points :: "gps_point list"
  local_points :: gps_store
  sync_queue :: "gps_point sync_store"

datatype notice = AlertInvalid | ToastSaved | ToastSavedOffline | AlertError

text \<open>\<open>v || null\<close> on a number: \<open>null\<close> for a missing value and for \<open>0\<close>.\<close>

definition or_null :: "real option \<Rightarrow> real option" where
  "or_null v = (case v of None \<Rightarrow> None | Some r \<Rightarrow> if r = 0 then None else Some r)"

text \<open>\<open>Math.round\<close> rounds to the nearest integer, halves upwards.\<close>

definition math_round :: "real \<Rightarrow> int" where
  "math_round r = \<lfloor>r + 1 / 2\<rfloor>"

definition make_point :: "capture \<Rightarrow> real \<Rightarrow> real \<Rightarrow> gps_point" where
  "make_point cap la lo =
     (let altitudeMeters = (case currentGPS cap of None \<Rightarrow> None | Some g \<Rightarrow> altitude g);
          elevationFeet = (case altitudeMeters of None \<Rightarrow> None
                           | Some a \<Rightarrow> Some (math_round (a * 3.28084)))
      in \<lparr>label = form_label cap, lat = la, lon = lo,
          altitude_m = altitudeMeters, elevation_ft = elevationFeet,
          altitude_accuracy = (case currentGPS cap of None \<Rightarrow> None | Some g \<Rightarrow> or_null (altitudeAccuracy g)),
          accuracy = (case currentGPS cap of None \<Rightarrow> None | Some g \<Rightarrow> or_null (reading_accuracy g)),
          point_type = pendingGPSLabel cap,
          point_timestamp = IsoString (iso_now cap)\<rparr>)"

definition gps_endpoint :: "string \<Rightarrow> string" where
  "gps_endpoint pid = ''/api/projects/'' @ pid @ ''/gps''"

text \<open>The two calls on \<open>window.OfflineManager\<close> that the offline path and the fallback make.\<close>

definition save_offline :: "capture \<Rightarrow> gps_point \<Rightarrow> visit_state \<Rightarrow> visit_state" where
  "save_offline cap point st =
     st\<lparr>local_points := saveGPSPointLocal (now_local cap) (local_points st) (projectId cap) point,
        sync_queue := addToSyncQueue (now_queue cap) (sync_queue st) ''POST''
                        (gps_endpoint (projectId cap)) point\<rparr>"

definition push_point :: "gps_point \<Rightarrow> visit_state \<Rightarrow> visit_state" where
  "push_point point st = st\<lparr>gps_points := gps_points st @ [point]\<rparr>"

definition saveGPSPoint :: "capture \<Rightarrow> visit_state \<Rightarrow> visit_state \<times> notice" where
  "saveGPSPoint cap st =
     (case (form_lat cap, form_lon cap) of
        (Some la, Some lo) \<Rightarrow>
          if form_label cap = [] then (st, AlertInvalid)
          else
            (let point = make_point cap la lo
             in if onLine cap
                then (case post_result cap of
                        Resolved r \<Rightarrow> (push_point point st, ToastSaved)
                      | Rejected \<Rightarrow>
                          if has_OfflineManager cap
                          then (push_point point (save_offline cap point st), ToastSavedOffline)
                          else (st, AlertError))
                else (push_point point
                        (if has_OfflineManager cap then save_offline cap point st else st),
                      ToastSaved))
      | _ \<Rightarrow> (st, AlertInvalid))"

section \<open>Tile prefetch (sw.js)\<close>

subsection \<open>JavaScript numbers\<close>

text \<open>
  A JavaScript number is an IEEE 754 double: a finite value, an infinity or \<open>NaN\<close>.
  \<open>Fin r\<close> is the finite number of value \<open>r\<close>, \<open>Fin 0\<close> being \<open>+0\<close>, and \<open>NZero\<close> is \<open>-0\<close>.
  The result of \<open>+\<close>, \<open>-\<close>, \<open>*\<close> and \<open>/\<close> on finite numbers is the exact result rounded
  to the nearest double, ties to the even mantissa: \<open>rnd\<close>. A double has a mantissa of
  53 bits; the exponent of a normal double lies between \<open>-1022\<close> and \<open>1023\<close>, and below
  \<open>2^-1022\<close> the doubles are \<open>2^-1074\<close> apart. A result of magnitude \<open>2^1024\<close> or more
  after rounding is an infinity; a non-zero result that rounds to zero keeps its sign.
\<close>

datatype jsnum = Fin real | NZero | PInf | NInf | NaN

definition pow2 :: "int \<Rightarrow> real" where
  "pow2 e = (if 0 \<le> e then 2 ^ nat e else 1 / 2 ^ nat (- e))"

definition round_even :: "real \<Rightarrow> int" where
  "round_even q =
     (if q - of_int \<lfloor>q\<rfloor> < 1 / 2 then \<lfloor>q\<rfloor>
      else if 1 / 2 < q - of_int \<lfloor>q\<rfloor> then \<lfloor>q\<rfloor> + 1
      else if even \<lfloor>q\<rfloor> then \<lfloor>q\<rfloor> else \<lfloor>q\<rfloor> + 1)"

definition expo :: "real \<Rightarrow> int" where
  "expo x = max \<lfloor>log 2 \<bar>x\<bar>\<rfloor> (- 1022)"

definition nearest :: "real \<Rightarrow> real" where
  "nearest x = of_int (round_even (x / pow2 (expo x - 52))) * pow2 (expo x - 52)"

definition rnd :: "real \<Rightarrow> jsnum" where
  "rnd x =
     (if x = 0 then Fin 0
      else if 2 ^ 1024 \<le> \<bar>nearest x\<bar> then (if 0 < x then PInf else NInf)
      else if nearest x = 0 \<and> x < 0 then NZero
      else Fin (nearest x))"

text \<open>The sign bit, the zeros, the infinities, and the value of a number.\<close>

fun neg :: "jsnum \<Rightarrow> bool" where
  "neg (Fin a) = (a < 0)"
| "neg NZero = True"
| "neg PInf = False"
| "neg NInf = True"
| "neg NaN = False"

definition is_zero :: "jsnum \<Rightarrow> bool" where
  "is_zero a = (a = Fin 0 \<or> a = NZero)"

definition is_inf :: "jsnum \<Rightarrow> bool" where
  "is_inf a = (a = PInf \<or> a = NInf)"

fun val :: "jsnum \<Rightarrow> real" where
  "val (Fin a) = a"
| "val a = 0"

fun jadd :: "jsnum \<Rightarrow> jsnum \<Rightarrow> jsnum" where
  "jadd NaN b = NaN"
| "jadd a NaN = NaN"
| "jadd PInf NInf = NaN"
| "jadd NInf PInf = NaN"
| "jadd PInf b = PInf"
| "jadd a PInf = PInf"
| "jadd NInf b = NInf"
| "jadd a NInf = NInf"
| "jadd NZero NZero = NZero"
| "jadd NZero (Fin b) = Fin b"
| "jadd (Fin a) NZero = Fin a"
| "jadd (Fin a) (Fin b) = rnd (a + b)"

fun jneg :: "jsnum \<Rightarrow> jsnum" where
  "jneg (Fin a) = (if a = 0 then NZero else Fin (- a))"
| "jneg NZero = Fin 0"
| "jneg PInf = NInf"
| "jneg NInf = PInf"
| "jneg NaN = NaN"

definition jsub :: "jsnum \<Rightarrow> jsnum \<Rightarrow> jsnum" where
  "jsub a b = jadd a (jneg b)"

definition jmul :: "jsnum \<Rightarrow> jsnum \<Rightarrow> jsnum" where
  "jmul a b =
     (if a = NaN \<or> b = NaN then NaN
      else if is_zero a \<and> is_inf b \<or> is_inf a \<and> is_zero b then NaN
      else if is_inf a \<or> is_inf b then (if neg a \<noteq> neg b then NInf else PInf)
      else if is_zero a \<or> is_zero b then (if neg a \<noteq> neg b then NZero else Fin 0)
      else rnd (val a * val b))"

definition jdiv :: "jsnum \<Rightarrow> jsnum \<Rightarrow> jsnum" where
  "jdiv a b =
     (if a = NaN \<or> b = NaN then NaN
      else if is_zero a \<and> is_zero b \<or> is_inf a \<and> is_inf b then NaN
      else if is_inf a \<or> is_zero b then (if neg a \<noteq> neg b then NInf else PInf)
      else if is_zero a \<or> is_inf b then (if neg a \<noteq> neg b then NZero else Fin 0)
      else rnd (val a / val b))"

text \<open>\<open>a <= b\<close>, and \<open>Math.floor\<close>: the floor of a double is a double.\<close>

fun jle :: "jsnum \<Rightarrow> jsnum \<Rightarrow> bool" where
  "jle NaN b = False"
| "jle a NaN = False"
| "jle NInf b = True"
| "jle a PInf = True"
| "jle PInf b = False"
| "jle a NInf = False"
| "jle NZero NZero = True"
| "jle NZero (Fin b) = (0 \<le> b)"
| "jle (Fin a) NZero = (a \<le> 0)"
| "jle (Fin a) (Fin b) = (a \<le> b)"

fun Math_floor :: "jsnum \<Rightarrow> jsnum" where
  "Math_floor (Fin a) = Fin (of_int \<lfloor>a\<rfloor>)"
| "Math_floor a = a"

text \<open>\<open>Math.PI\<close> is the double nearest to the number pi, \<open>0x1.921fb54442d18p+1\<close>.\<close>

definition Math_PI :: jsnum where
  "Math_PI = Fin (884279719003555 / 281474976710656)"

text \<open>
  \<open>Math.tan\<close>, \<open>Math.cos\<close>, \<open>Math.log\<close> and \<open>Math.pow\<close> are approximations that the
  language leaves to the implementation; they are parameters of the model
  (\<open>Math_pow2 z\<close> stands for \<open>Math.pow(2, z)\<close>, the one use the program makes of it).
  So is the text of a number that is not an integer below \<open>10^21\<close> in magnitude
  (a fraction or exponent notation), which no URL of the runs considered below contains.
\<close>

record platform =
  Math_tan :: "jsnum \<Rightarrow> jsnum"
  Math_cos :: "jsnum \<Rightarrow> jsnum"
  Math_log :: "jsnum \<Rightarrow> jsnum"
  Math_pow2 :: "jsnum \<Rightarrow> jsnum"
  other_text :: "real \<Rightarrow> string"

subsection \<open>latLngToTile and getTileUrls\<close>

record bounds =
  north :: jsnum
  south :: jsnum
  east :: jsnum
  west :: jsnum

record tile =
  tile_x :: jsnum
  tile_y :: jsnum

definition latLngToTile :: "platform \<Rightarrow> jsnum \<Rightarrow> jsnum \<Rightarrow> jsnum \<Rightarrow> tile" where
  "latLngToTile P la lng zoom =
     \<lparr>tile_x = Math_floor (jmul (jdiv (jadd lng (Fin 180)) (Fin 360)) (Math_pow2 P zoom)),
      tile_y = Math_floor
        (jmul (jdiv (jsub (Fin 1)
                 (jdiv (Math_log P
                          (jadd (Math_tan P (jdiv (jmul la Math_PI) (Fin 180)))
                                (jdiv (Fin 1) (Math_cos P (jdiv (jmul la Math_PI) (Fin 180))))))
                       Math_PI))
               (Fin 2))
              (Math_pow2 P zoom))\<rparr>"

text \<open>The decimal text of an integer, and the text a template literal puts for a number.\<close>

definition digit_char :: "nat \<Rightarrow> char" where
  "digit_char d = ''0123456789'' ! d"

fun show_nat :: "nat \<Rightarrow> string" where
  "show_nat n = (if n < 10 then [digit_char n] else show_nat (n div 10) @ [digit_char (n mod 10)])"

declare show_nat.simps [simp del]

definition show_int :: "int \<Rightarrow> string" where
  "show_int i = (if i < 0 then CHR ''-'' # show_nat (nat (- i)) else show_nat (nat i))"

fun js_text :: "platform \<Rightarrow> jsnum \<Rightarrow> string" where
  "js_text P (Fin r) =
     (if r = of_int \<lfloor>r\<rfloor> \<and> \<bar>r\<bar> < 10 ^ 21 then show_int \<lfloor>r\<rfloor> else other_text P r)"
| "js_text P NZero = ''0''"
| "js_text P PInf = ''Infinity''"
| "js_text P NInf = ''-Infinity''"
| "js_text P NaN = ''NaN''"

definition baseUrl :: string where
  "baseUrl = ''https://server.arcgisonline.com/ArcGIS/rest/services/World_Imagery/MapServer/tile''"

definition js_tile_url :: "platform \<Rightarrow> jsnum \<Rightarrow> jsnum \<Rightarrow> jsnum \<Rightarrow> string" where
  "js_tile_url P z y x = baseUrl @ ''/'' @ js_text P z @ ''/'' @ js_text P y @ ''/'' @ js_text P x"

text \<open>
  \<open>getTileUrls(bounds, maxZoom)\<close>, for a box and a zoom that are numbers: three nested
  \<open>for\<close> loops. A loop whose counter stops advancing, or whose bound is \<open>Infinity\<close>,
  does not end; then the function does not return, which is the value \<open>None\<close>.
  \<open>x++\<close> adds 1 in double arithmetic.
\<close>

partial_function (option) loop_y ::
  "platform \<Rightarrow> jsnum \<Rightarrow> jsnum \<Rightarrow> jsnum \<Rightarrow> jsnum \<Rightarrow> string list \<Rightarrow> string list option" where
  "loop_y P z x yend y urls =
     (if jle y yend
      then loop_y P z x yend (jadd y (Fin 1)) (urls @ [js_tile_url P z y x])
      else Some urls)"

partial_function (option) loop_x ::
  "platform \<Rightarrow> jsnum \<Rightarrow> jsnum \<Rightarrow> jsnum \<Rightarrow> jsnum \<Rightarrow> jsnum \<Rightarrow> string list \<Rightarrow> string list option" where
  "loop_x P z ystart yend xend x urls =
     (if jle x xend
      then Option.bind (loop_y P z x yend ystart urls)
             (\<lambda>urls'. loop_x P z ystart yend xend (jadd x (Fin 1)) urls')
      else Some urls)"

partial_function (option) loop_z ::
  "platform \<Rightarrow> bounds \<Rightarrow> jsnum \<Rightarrow> jsnum \<Rightarrow> string list \<Rightarrow> string list option" where
  "loop_z P b maxZoom z urls =
     (if jle z maxZoom
      then Option.bind
             (loop_x P z
                (tile_y (latLngToTile P (north b) (east b) z))
                (tile_y (latLngToTile P (south b) (west b) z))
                (tile_x (latLngToTile P (north b) (east b) z))
                (tile_x (latLngToTile P (south b) (west b) z)) urls)
             (\<lambda>urls'. loop_z P b maxZoom (jadd z (Fin 1)) urls')
      else Some urls)"

definition getTileUrls :: "platform \<Rightarrow> bounds \<Rightarrow> jsnum \<Rightarrow> string list option" where
  "getTileUrls P b maxZoom = loop_z P b maxZoom (Fin 14) []"

text \<open>The URL of the tile \<open>(z, x, y)\<close> with integer indices.\<close>

definition tile_url :: "int \<Rightarrow> int \<Rightarrow> int \<Rightarrow> string" where
  "tile_url z y x = baseUrl @ ''/'' @ show_int z @ ''/'' @ show_int y @ ''/'' @ show_int x"

subsection \<open>The projection, and the tiles of a box\<close>

text \<open>
  The slippy-map projection as the specification gives it, \<open>x = floor((lon + 180) / 360 * 2^z)\<close>
  and \<open>y = floor((1 - ln(tan \<phi> + 1 / cos \<phi>) / \<pi>) / 2 * 2^z)\<close> with \<open>\<phi> = lat * \<pi> / 180\<close> (the
  Mercator transform of the latitude), every operation being that of doubles and \<open>tan\<close>,
  \<open>cos\<close>, \<open>ln\<close> and the power those of the platform.
\<close>

definition slippy_x :: "platform \<Rightarrow> jsnum \<Rightarrow> jsnum \<Rightarrow> jsnum" where
  "slippy_x P lng zoom =
     Math_floor (jmul (jdiv (jadd lng (Fin 180)) (Fin 360)) (Math_pow2 P zoom))"

definition mercator_y :: "platform \<Rightarrow> jsnum \<Rightarrow> jsnum \<Rightarrow> jsnum" where
  "mercator_y P la zoom =
     Math_floor
       (jmul (jdiv (jsub (Fin 1)
                (jdiv (Math_log P
                         (jadd (Math_tan P (jdiv (jmul la Math_PI) (Fin 180)))
                               (jdiv (Fin 1) (Math_cos P (jdiv (jmul la Math_PI) (Fin 180))))))
                      Math_PI))
              (Fin 2))
             (Math_pow2 P zoom))"

text \<open>
  A safe integer is a double that is an integer of magnitude below \<open>2^53\<close> (and not \<open>-0\<close>):
  up to there adding 1 is exact. \<open>int_of\<close> reads such a number as an integer.
\<close>

fun safe_int :: "jsnum \<Rightarrow> bool" where
  "safe_int (Fin r) = (r = of_int \<lfloor>r\<rfloor> \<and> \<bar>r\<bar> < 2 ^ 53)"
| "safe_int a = False"

fun int_of :: "jsnum \<Rightarrow> int" where
  "int_of (Fin r) = \<lfloor>r\<rfloor>"
| "int_of a = 0"

text \<open>
  At zoom \<open>z\<close> the four corner coordinates of the box are safe integers; the tiles
  \<open>(z, x, y)\<close> of the box at zoom \<open>z\<close>, the \<open>x\<close> from west to east and for each \<open>x\<close> the \<open>y\<close>
  from north to south; and the URL of a tile.
\<close>

definition safe_zoom :: "platform \<Rightarrow> bounds \<Rightarrow> int \<Rightarrow> bool" where
  "safe_zoom P b z =
     (safe_int (slippy_x P (west b) (Fin (of_int z))) \<and> safe_int (slippy_x P (east b) (Fin (of_int z)))
      \<and> safe_int (mercator_y P (north b) (Fin (of_int z)))
      \<and> safe_int (mercator_y P (south b) (Fin (of_int z))))"

definition zoom_tiles :: "platform \<Rightarrow> bounds \<Rightarrow> int \<Rightarrow> (int \<times> int \<times> int) list" where
  "zoom_tiles P b z =
     map (Pair z) (List.product
       [int_of (slippy_x P (west b) (Fin (of_int z)))..int_of (slippy_x P (east b) (Fin (of_int z)))]
       [int_of (mercator_y P (north b) (Fin (of_int z)))..int_of (mercator_y P (south b) (Fin (of_int z)))])"

definition url_of :: "int \<times> int \<times> int \<Rightarrow> string" where
  "url_of t = (case t of (z, x, y) \<Rightarrow> tile_url z y x)"

subsection \<open>A platform whose Math functions are correctly rounded\<close>

text \<open>
  Each function returns the double nearest to the exact value, and at zeros, infinities
  and \<open>NaN\<close> what the language prescribes.
\<close>

fun exact_tan :: "jsnum \<Rightarrow> jsnum" where
  "exact_tan (Fin x) = rnd (tan x)"
| "exact_tan NZero = NZero"
| "exact_tan a = NaN"

fun exact_cos :: "jsnum \<Rightarrow> jsnum" where
  "exact_cos (Fin x) = rnd (cos x)"
| "exact_cos NZero = Fin 1"
| "exact_cos a = NaN"

fun exact_log :: "jsnum \<Rightarrow> jsnum" where
  "exact_log (Fin x) = (if x < 0 then NaN else if x = 0 then NInf else rnd (ln x))"
| "exact_log NZero = NInf"
| "exact_log PInf = PInf"
| "exact_log a = NaN"

fun exact_pow2 :: "jsnum \<Rightarrow> jsnum" where
  "exact_pow2 (Fin z) = rnd (2 powr z)"
| "exact_pow2 NZero = Fin 1"
| "exact_pow2 PInf = PInf"
| "exact_pow2 NInf = Fin 0"
| "exact_pow2 NaN = NaN"

definition exact_platform :: platform where
  "exact_platform =
     \<lparr>Math_tan = exact_tan, Math_cos = exact_cos, Math_log = exact_log, Math_pow2 = exact_pow2,
      other_text = (\<lambda>r. [])\<rparr>"

section \<open>Concrete inputs\<close>

text \<open>
  A queue of two entries, and a network that fails the first of them and accepts
  everything else; a network that accepts everything.
\<close>

definition demo_entry1 :: "string sync_item" where
  "demo_entry1 = \<lparr>item_id = 1, action = ''POST'', endpoint = ''/api/projects/7/gps'',
                   data = ''well_location'', timestamp = 10, attempts = 0\<rparr>"

definition demo_entry2 :: "string sync_item" where
  "demo_entry2 = \<lparr>item_id = 2, action = ''PUT'', endpoint = ''/api/projects/7'',
                   data = ''notes'', timestamp = 20, attempts = 0\<rparr>"

definition demo_queue :: "string sync_store" where
  "demo_queue =
     addToSyncQueue 20
       (addToSyncQueue 10 empty_store ''POST'' ''/api/projects/7/gps'' ''well_location'')
       ''PUT'' ''/api/projects/7'' ''notes''"

definition demo_ok :: response where
  "demo_ok = \<lparr>status = 200, body = ''ok'', content_type = None\<rparr>"

definition demo_net :: "(string, unit) network" where
  "demo_net w item = (if item_id item = 1 then Rejected else Resolved demo_ok, w)"

definition accepting_net :: "(string, unit) network" where
  "accepting_net w item = (Resolved demo_ok, w)"

text \<open>Requests: a POST and a GET to the API of the app's own host, and a tile.\<close>

definition demo_post :: request where
  "demo_post =
     \<lparr>url = ''https://field.example/api/projects/7/gps'', hostname = ''field.example'',
      pathname = ''/api/projects/7/gps'', http_method = ''POST'', accept = None\<rparr>"

definition demo_get :: request where
  "demo_get =
     \<lparr>url = ''https://field.example/api/projects/7'', hostname = ''field.example'',
      pathname = ''/api/projects/7'', http_method = ''GET'', accept = None\<rparr>"

definition demo_tile :: request where
  "demo_tile =
     \<lparr>url = ''https://server.arcgisonline.com/ArcGIS/rest/services/World_Imagery/MapServer/tile/14/6300/3400'',
      hostname = ''server.arcgisonline.com'',
      pathname = ''/ArcGIS/rest/services/World_Imagery/MapServer/tile/14/6300/3400'',
      http_method = ''GET'', accept = None\<rparr>"

text \<open>A capture made offline, on a fresh page.\<close>

definition demo_capture :: capture where
  "demo_capture =
     \<lparr>form_label = ''well_location'', form_lat = Some 39, form_lon = Some (- 105),
      currentGPS = Some \<lparr>altitude = Some 2000, altitudeAccuracy = Some 5, reading_accuracy = Some 8\<rparr>,
      pendingGPSLabel = Some ''well'', projectId = ''7'', onLine = False,
      has_OfflineManager = True, iso_now = ''2024-05-01T12:00:00.000Z'',
      now_local = 1714564800000, now_queue = 1714564800001, post_result = Rejected\<rparr>"

definition demo_visit :: visit_state where
  "demo_visit = \<lparr>gps_points = [], local_points = \<lparr>gps_rows = [], gps_key_gen = 1\<rparr>,
                  sync_queue = empty_store\<rparr>"

text \<open>The box whose four bounds are 0: the point where the equator meets the prime meridian.\<close>

definition zero_box :: bounds where
  "zero_box = \<lparr>north = Fin 0, south = Fin 0, east = Fin 0, west = Fin 0\<rparr>"

text \<open>
  A box of 1/32 degree by 1/32 degree with its south-west corner at latitude 39, longitude
  -105, and a platform given by the values that the Math functions of a common
  implementation take at the arguments that occur for that box at zoom 14
  (\<open>Math.tan(0.6806784082777885) = 0.809784033195007\<close> and so on; \<open>NaN\<close> elsewhere).
\<close>

definition sample_box :: bounds where
  "sample_box = \<lparr>north = Fin (1249 / 32), south = Fin 39, east = Fin (- (3359 / 32)), west = Fin (- 105)\<rparr>"

definition sample_platform :: platform where
  "sample_platform =
     \<lparr>Math_tan = (\<lambda>a. if a = Fin (6131006051757981 / 9007199254740992) then Fin (3646943070147611 / 4503599627370496)
                     else if a = Fin (6135918716863557 / 9007199254740992) then Fin (7302023881422387 / 9007199254740992) else NaN),
      Math_cos = (\<lambda>a. if a = Fin (6131006051757981 / 9007199254740992) then Fin (874988565607525 / 1125899906842624)
                     else if a = Fin (6135918716863557 / 9007199254740992) then Fin (6996815843528955 / 9007199254740992) else NaN),
      Math_log = (\<lambda>a. if a = Fin (2360498242904875 / 1125899906842624) then Fin (3333970144391323 / 4503599627370496)
                     else if a = Fin (4724311663864019 / 2251799813685248) then Fin (3337131552156189 / 4503599627370496) else NaN),
      Math_pow2 = (\<lambda>a. if a = Fin 14 then Fin 16384 else NaN),
      other_text = (\<lambda>r. [])\<rparr>"

section \<open>Properties of the sync queue\<close>

subsection \<open>The store keeps its keys in order\<close>

lemma store_inv_empty: "store_inv empty_store"
  by (simp add: store_inv_def empty_store_def)

lemma store_inv_add: "store_inv st \<Longrightarrow> store_inv (store_add st a e d t n)"
  by (auto simp: store_inv_def store_add_def sorted_wrt_append list_all_iff)

lemma sorted_wrt_filter_map_aux:
  "sorted_wrt (<) (map f xs) \<Longrightarrow> sorted_wrt (<) (map f (filter P xs))"
  by (induction xs) auto

lemma store_inv_delete: "store_inv st \<Longrightarrow> store_inv (store_delete st k)"
  by (auto simp: store_inv_def store_delete_def list_all_iff sorted_wrt_filter_map_aux)

lemma getPendingSyncs_inv: "store_inv st \<Longrightarrow> getPendingSyncs st = rows st"
  unfolding getPendingSyncs_def store_getAll_def store_inv_def
  by (simp add: sort_key_id_if_sorted strict_sorted_imp_sorted)

lemma strict_ids_distinct: "sorted_wrt (<) (map item_id xs) \<Longrightarrow> distinct (map item_id xs)"
  by (simp add: strict_sorted_iff)

lemma same_id_same_item:
  "sorted_wrt (<) (map item_id xs) \<Longrightarrow> a \<in> set xs \<Longrightarrow> b \<in> set xs \<Longrightarrow> item_id a = item_id b \<Longrightarrow> a = b"
  using strict_ids_distinct [of xs] by (auto simp: distinct_map dest: inj_onD)

lemma filter_absent: "k \<notin> fst ` set ps \<Longrightarrow> filter (\<lambda>p'. fst p' = k) ps = []"
  by (induction ps) auto

lemma once_in_distinct:
  "distinct (map fst ps) \<Longrightarrow> p \<in> set ps \<Longrightarrow> length (filter (\<lambda>p'. fst p' = fst p) ps) = 1"
proof (induction ps)
  case Nil
  then show ?case by simp
next
  case (Cons a ps)
  show ?case
  proof (cases "p = a")
    case True
    with Cons.prems show ?thesis by (simp add: filter_absent)
  next
    case False
    with Cons.prems have "p \<in> set ps" "fst a \<noteq> fst p"
      by auto
    with Cons show ?thesis by simp
  qed
qed

subsection \<open>One turn of the loop, and the whole loop\<close>

lemma step_world: "world (sync_item_step net x s) = snd (net (world s) x)"
  by (simp add: sync_item_step_def Let_def split: prod.splits fetch_result.splits)

lemma step_trace: "trace (sync_item_step net x s) = trace s @ [(x, fst (net (world s) x))]"
  by (simp add: sync_item_step_def Let_def split: prod.splits fetch_result.splits)

lemma step_rows:
  "rows (queue (sync_item_step net x s)) =
     (if acked (fst (net (world s) x)) then filter (\<lambda>r. item_id r \<noteq> item_id x) (rows (queue s))
      else rows (queue s))"
  by (simp add: sync_item_step_def Let_def acked_def removeFromSyncQueue_def store_delete_def
      split: prod.splits fetch_result.splits)

lemma step_synced:
  "synced (sync_item_step net x s) = synced s + (if acked (fst (net (world s) x)) then 1 else 0)"
  by (simp add: sync_item_step_def Let_def acked_def split: prod.splits fetch_result.splits)

lemma step_failed:
  "failed (sync_item_step net x s) = failed s + (if acked (fst (net (world s) x)) then 0 else 1)"
  by (simp add: sync_item_step_def Let_def acked_def split: prod.splits fetch_result.splits)

lemma trace_sync_loop:
  "trace (sync_loop net xs s) = trace s @ results net xs (world s)"
  by (induction xs arbitrary: s) (simp_all add: step_world step_trace)

lemma map_fst_results: "map fst (results net xs w) = xs"
  by (induction xs arbitrary: w) auto

lemma rows_sync_loop:
  "rows (queue (sync_loop net xs s)) =
     filter (\<lambda>r. \<forall>p \<in> set (results net xs (world s)). acked (snd p) \<longrightarrow> item_id (fst p) \<noteq> item_id r)
       (rows (queue s))"
proof (induction xs arbitrary: s)
  case Nil
  then show ?case by simp
next
  case (Cons x xs)
  show ?case
    by (auto simp: Cons.IH step_world step_rows intro!: filter_cong)
qed

lemma synced_sync_loop:
  "synced (sync_loop net xs s) =
     synced s + length (filter (\<lambda>p. acked (snd p)) (results net xs (world s)))"
  by (induction xs arbitrary: s) (simp_all add: step_world step_synced)

lemma failed_sync_loop:
  "failed (sync_loop net xs s) =
     failed s + length (filter (\<lambda>p. \<not> acked (snd p)) (results net xs (world s)))"
  by (induction xs arbitrary: s) (simp_all add: step_world step_failed)

lemma drain_trace: "trace (syncPendingData net True q w) = results net (getPendingSyncs q) w"
  by (simp add: syncPendingData_def trace_sync_loop)

lemma drain_rows:
  "rows (queue (syncPendingData net True q w)) =
     filter (\<lambda>r. \<forall>p \<in> set (results net (getPendingSyncs q) w). acked (snd p) \<longrightarrow> item_id (fst p) \<noteq> item_id r)
       (rows q)"
  by (simp add: syncPendingData_def rows_sync_loop)

subsection \<open>The drain on the concrete queue\<close>

lemma demo_queue_rows: "rows demo_queue = [demo_entry1, demo_entry2]"
  by (simp add: demo_queue_def addToSyncQueue_def store_add_def empty_store_def
      demo_entry1_def demo_entry2_def)

lemma demo_queue_inv: "store_inv demo_queue"
  unfolding demo_queue_def addToSyncQueue_def
  by (intro store_inv_add store_inv_empty)

lemma demo_results:
  "results demo_net [demo_entry1, demo_entry2] () =
     [(demo_entry1, Rejected), (demo_entry2, Resolved demo_ok)]"
  by (simp add: demo_net_def demo_entry1_def demo_entry2_def)

lemma demo_trace:
  "trace (syncPendingData demo_net True demo_queue ()) =
     [(demo_entry1, Rejected), (demo_entry2, Resolved demo_ok)]"
  unfolding drain_trace getPendingSyncs_inv [OF demo_queue_inv] demo_queue_rows
  by (rule demo_results)

lemma demo_acked: "\<not> acked Rejected" "acked (Resolved demo_ok)"
  by (simp_all add: acked_def ok_def demo_ok_def)

lemma demo_rows_after: "rows (queue (syncPendingData demo_net True demo_queue ())) = [demo_entry1]"
  unfolding drain_rows getPendingSyncs_inv [OF demo_queue_inv] demo_queue_rows demo_results
  by (simp add: demo_acked demo_entry1_def demo_entry2_def)

subsection \<open>Enqueueing\<close>

text \<open>
  Claim C9. \<open>addToSyncQueue(action, endpoint, data)\<close> appends one entry to the queue and leaves
  the entries before it as they were. The new entry has the six fields \<open>id\<close>, \<open>action\<close>
  (the HTTP method), \<open>endpoint\<close>, \<open>data\<close> (the payload), \<open>timestamp\<close> (the time of the call)
  and \<open>attempts = 0\<close>; its \<open>id\<close> is the value of the store's key generator, which moves on by
  one, and in a store that satisfies the key invariant that id is above every id in the
  queue, the invariant holds again afterwards, and the new entry is the last of the pending
  entries.
\<close>

theorem addToSyncQueue_entry:
  "rows (addToSyncQueue now st act ep d) =
     rows st @ [\<lparr>item_id = key_gen st, action = act, endpoint = ep, data = d,
                  timestamp = now, attempts = 0\<rparr>]
   \<and> key_gen (addToSyncQueue now st act ep d) = key_gen st + 1
   \<and> (store_inv st \<longrightarrow>
        (\<forall>r \<in> set (rows st). item_id r < key_gen st)
        \<and> store_inv (addToSyncQueue now st act ep d)
        \<and> getPendingSyncs (addToSyncQueue now st act ep d) =
            getPendingSyncs st @ [\<lparr>item_id = key_gen st, action = act, endpoint = ep, data = d,
                                    timestamp = now, attempts = 0\<rparr>])"
proof -
  have r: "rows (addToSyncQueue now st act ep d) =
     rows st @ [\<lparr>item_id = key_gen st, action = act, endpoint = ep, data = d,
                  timestamp = now, attempts = 0\<rparr>]"
    and k: "key_gen (addToSyncQueue now st act ep d) = key_gen st + 1"
    by (simp_all add: addToSyncQueue_def store_add_def)
  have i: "store_inv (addToSyncQueue now st act ep d)" if "store_inv st"
    unfolding addToSyncQueue_def using that by (rule store_inv_add)
  have b: "\<forall>r \<in> set (rows st). item_id r < key_gen st" if "store_inv st"
    using that by (simp add: store_inv_def list_all_iff)
  have p: "getPendingSyncs (addToSyncQueue now st act ep d) =
            getPendingSyncs st @ [\<lparr>item_id = key_gen st, action = act, endpoint = ep, data = d,
                                    timestamp = now, attempts = 0\<rparr>]" if "store_inv st"
    using that by (simp add: getPendingSyncs_inv i r)
  from r k i b p show ?thesis by blast
qed

theorem addToSyncQueue_entry_witness:
  "store_inv (empty_store :: string sync_store)
   \<and> rows (addToSyncQueue 10 empty_store ''POST'' ''/api/projects/7/gps'' ''well_location'') =
       [demo_entry1]
   \<and> store_inv (addToSyncQueue 10 empty_store ''POST'' ''/api/projects/7/gps'' ''well_location'')
   \<and> attempts demo_entry1 = 0"
  using addToSyncQueue_entry [of 10 empty_store "''POST''" "''/api/projects/7/gps''" "''well_location''"]
    store_inv_empty [where ?'a = string]
  by (simp add: demo_entry1_def empty_store_def)

subsection \<open>Draining\<close>

text \<open>
  Claim C1. Online, one call of \<open>syncPendingData\<close> makes its calls of \<open>fetch\<close> for exactly the
  pending entries, one call for each and none besides, in the order of the queue, which is
  the order of their strictly increasing ids; this holds whatever the network answers, so
  a failed attempt keeps no later entry from its attempt, and every attempt counts as
  synced or as failed.
\<close>

theorem syncPendingData_attempts_fifo:
  assumes "store_inv q"
  shows "map fst (trace (syncPendingData net True q w)) = getPendingSyncs q
       \<and> getPendingSyncs q = rows q
       \<and> sorted_wrt (<) (map (\<lambda>p. item_id (fst p)) (trace (syncPendingData net True q w)))
       \<and> (\<forall>p \<in> set (trace (syncPendingData net True q w)).
             length (filter (\<lambda>p'. fst p' = fst p) (trace (syncPendingData net True q w))) = 1)
       \<and> synced (syncPendingData net True q w) + failed (syncPendingData net True q w) = length (rows q)"
proof -
  let ?S = "syncPendingData net True q w"
  have pend: "getPendingSyncs q = rows q"
    using assms by (rule getPendingSyncs_inv)
  have fsts: "map fst (trace ?S) = rows q"
    by (simp add: drain_trace map_fst_results pend)
  have ids: "map (\<lambda>p. item_id (fst p)) (trace ?S) = map item_id (rows q)"
    using arg_cong [OF fsts, of "map item_id"] by (simp add: comp_def)
  have srt: "sorted_wrt (<) (map item_id (rows q))"
    using assms by (simp add: store_inv_def)
  have dist: "distinct (map fst (trace ?S))"
    using strict_ids_distinct [OF srt] by (simp add: fsts distinct_map)
  have once: "\<forall>p \<in> set (trace ?S). length (filter (\<lambda>p'. fst p' = fst p) (trace ?S)) = 1"
    using once_in_distinct [OF dist] by blast
  have cnt: "synced ?S + failed ?S = length (results net (rows q) w)"
    by (simp add: syncPendingData_def synced_sync_loop failed_sync_loop pend sum_length_filter_compl)
  have len: "length (results net (rows q) w) = length (rows q)"
    using arg_cong [OF map_fst_results [of net "rows q" w], of length] by simp
  show ?thesis
    using pend fsts ids srt once cnt len by simp
qed

theorem syncPendingData_attempts_fifo_witness:
  "store_inv demo_queue
   \<and> map fst (trace (syncPendingData demo_net True demo_queue ())) = [demo_entry1, demo_entry2]
   \<and> map snd (trace (syncPendingData demo_net True demo_queue ())) = [Rejected, Resolved demo_ok]
   \<and> synced (syncPendingData demo_net True demo_queue ())
       + failed (syncPendingData demo_net True demo_queue ()) = 2"
proof -
  note t = syncPendingData_attempts_fifo [OF demo_queue_inv, of demo_net "()"]
  have a: "map fst (trace (syncPendingData demo_net True demo_queue ())) = [demo_entry1, demo_entry2]"
    using t [THEN conjunct1] t [THEN conjunct2, THEN conjunct1] by (simp only: demo_queue_rows)
  have b: "map snd (trace (syncPendingData demo_net True demo_queue ())) = [Rejected, Resolved demo_ok]"
    by (simp only: demo_trace list.map snd_conv)
  have c: "synced (syncPendingData demo_net True demo_queue ())
       + failed (syncPendingData demo_net True demo_queue ()) = 2"
    using t [THEN conjunct2, THEN conjunct2, THEN conjunct2, THEN conjunct2]
    by (simp only: demo_queue_rows) simp
  from demo_queue_inv a b c show ?thesis by blast
qed

text \<open>
  Claim C2. An entry that a drain has made its attempt for is gone from the queue afterwards
  if and only if that attempt resolved with a response whose \<open>ok\<close> is true; after a response
  that is not ok and after a rejected \<open>fetch\<close> the entry, and with it its id, is still in the queue.
\<close>

theorem syncPendingData_removed_iff_acked:
  assumes inv: "store_inv q"
    and att: "(it, r) \<in> set (trace (syncPendingData net True q w))"
  shows "(it \<in> set (rows (queue (syncPendingData net True q w)))) = (\<not> acked r)
       \<and> (item_id it \<in> item_id ` set (rows (queue (syncPendingData net True q w)))) = (\<not> acked r)"
proof -
  let ?S = "syncPendingData net True q w"
  let ?R = "results net (rows q) w"
  have pend: "getPendingSyncs q = rows q"
    using inv by (rule getPendingSyncs_inv)
  have srt: "sorted_wrt (<) (map item_id (rows q))"
    using inv by (simp add: store_inv_def)
  have inR: "(it, r) \<in> set ?R"
    using att by (simp add: drain_trace pend)
  have fstR: "map fst ?R = rows q"
    by (rule map_fst_results)
  have fst_in: "fst p \<in> set (rows q)" if "p \<in> set ?R" for p
    using that imageI [of p "set ?R" fst] by (simp flip: set_map add: fstR)
  have it_in: "it \<in> set (rows q)"
    using fst_in [OF inR] by simp
  have distR: "distinct (map fst ?R)"
    using strict_ids_distinct [OF srt] by (simp add: fstR distinct_map)
  have rows: "rows (queue ?S) =
      filter (\<lambda>x. \<forall>p \<in> set ?R. acked (snd p) \<longrightarrow> item_id (fst p) \<noteq> item_id x) (rows q)"
    by (simp add: drain_rows pend)
  have uniq: "snd p = r" if "p \<in> set ?R" "item_id (fst p) = item_id it" for p
  proof -
    have "fst p = it"
      using same_id_same_item [OF srt fst_in [OF that(1)] it_in that(2)] .
    then have "(it, snd p) \<in> set ?R"
      using that(1) by (metis prod.collapse)
    then show ?thesis
      using eq_key_imp_eq_value [OF distR _ inR] by simp
  qed
  have keep': "it \<in> set (rows (queue ?S))" if "\<not> acked r"
    using that it_in uniq by (auto simp: rows)
  have keep: "item_id it \<in> item_id ` set (rows (queue ?S))" if "\<not> acked r"
    using keep' [OF that] by blast
  have gone: "item_id it \<notin> item_id ` set (rows (queue ?S))" if "acked r"
    using that inR by (force simp: rows)
  show ?thesis
    using keep gone keep' by blast
qed

theorem syncPendingData_removed_iff_acked_witness:
  "store_inv demo_queue
   \<and> (demo_entry2, Resolved demo_ok) \<in> set (trace (syncPendingData demo_net True demo_queue ()))
   \<and> acked (Resolved demo_ok)
   \<and> demo_entry2 \<notin> set (rows (queue (syncPendingData demo_net True demo_queue ())))"
  using syncPendingData_removed_iff_acked [OF demo_queue_inv, of demo_entry2 "Resolved demo_ok" demo_net "()"]
    demo_queue_inv
  by (simp add: demo_trace demo_acked)

text \<open>
  Claim C3, as the code has it. An entry whose attempt fails (a response that is not ok, or a
  rejected \<open>fetch\<close>) stays in the queue exactly as it was: every entry of the queue after
  the drain is an entry of the queue before it, so the persisted attempt counter of the
  failed entry is what it was before, and nothing is added to it. What goes up by one for
  each failed attempt is the \<open>failed\<close> count that the drain returns, and the drain goes on
  to the entries that follow.
\<close>

theorem syncPendingData_failed_entry_unchanged:
  assumes inv: "store_inv q"
    and att: "(it, r) \<in> set (trace (syncPendingData net True q w))"
    and bad: "\<not> acked r"
  shows "it \<in> set (rows q) \<and> it \<in> set (rows (queue (syncPendingData net True q w)))
       \<and> (\<forall>x \<in> set (rows (queue (syncPendingData net True q w))).
             x \<in> set (rows q) \<and> (item_id x = item_id it \<longrightarrow> attempts x = attempts it))
       \<and> failed (syncPendingData net True q w) =
           length (filter (\<lambda>p. \<not> acked (snd p)) (trace (syncPendingData net True q w)))
       \<and> map fst (trace (syncPendingData net True q w)) = rows q"
proof -
  let ?S = "syncPendingData net True q w"
  let ?R = "results net (rows q) w"
  have pend: "getPendingSyncs q = rows q"
    using inv by (rule getPendingSyncs_inv)
  have srt: "sorted_wrt (<) (map item_id (rows q))"
    using inv by (simp add: store_inv_def)
  have inR: "(it, r) \<in> set ?R"
    using att by (simp add: drain_trace pend)
  have fstR: "map fst ?R = rows q"
    by (rule map_fst_results)
  have fst_in: "fst p \<in> set (rows q)" if "p \<in> set ?R" for p
    using that imageI [of p "set ?R" fst] by (simp flip: set_map add: fstR)
  have it_in: "it \<in> set (rows q)"
    using fst_in [OF inR] by simp
  have distR: "distinct (map fst ?R)"
    using strict_ids_distinct [OF srt] by (simp add: fstR distinct_map)
  have rows: "rows (queue ?S) =
      filter (\<lambda>x. \<forall>p \<in> set ?R. acked (snd p) \<longrightarrow> item_id (fst p) \<noteq> item_id x) (rows q)"
    by (simp add: drain_rows pend)
  have uniq: "snd p = r" if "p \<in> set ?R" "item_id (fst p) = item_id it" for p
  proof -
    have "fst p = it"
      using same_id_same_item [OF srt fst_in [OF that(1)] it_in that(2)] .
    then have "(it, snd p) \<in> set ?R"
      using that(1) by (metis prod.collapse)
    then show ?thesis
      using eq_key_imp_eq_value [OF distR _ inR] by simp
  qed
  have kept: "it \<in> set (rows (queue ?S))"
    using bad it_in uniq by (auto simp: rows)
  have sub: "x \<in> set (rows q)" if "x \<in> set (rows (queue ?S))" for x
    using that by (simp add: rows)
  have same: "attempts x = attempts it"
    if "x \<in> set (rows (queue ?S))" "item_id x = item_id it" for x
    using same_id_same_item [OF srt sub [OF that(1)] it_in that(2)] by simp
  have cnt: "failed ?S = length (filter (\<lambda>p. \<not> acked (snd p)) (trace ?S))"
    by (simp add: drain_trace) (simp add: syncPendingData_def failed_sync_loop)
  have fsts: "map fst (trace ?S) = rows q"
    by (simp add: drain_trace map_fst_results pend)
  show ?thesis
    using it_in kept sub same cnt fsts by blast
qed

theorem syncPendingData_failed_entry_unchanged_witness:
  "store_inv demo_queue
   \<and> (demo_entry1, Rejected) \<in> set (trace (syncPendingData demo_net True demo_queue ()))
   \<and> \<not> acked Rejected
   \<and> demo_entry1 \<in> set (rows (queue (syncPendingData demo_net True demo_queue ())))
   \<and> failed (syncPendingData demo_net True demo_queue ()) = 1"
  using syncPendingData_failed_entry_unchanged [OF demo_queue_inv, of demo_entry1 Rejected demo_net "()"]
    demo_queue_inv
  by (simp add: demo_trace demo_acked)

text \<open>
  Claim C3, as the spec states it, fails: the first entry of the concrete queue is attempted
  and the attempt is rejected, and the attempt counter persisted under its id is \<open>0\<close>
  afterwards as before, not \<open>1\<close>.
\<close>

theorem failed_attempt_counter_not_incremented:
  "(demo_entry1, Rejected) \<in> set (trace (syncPendingData demo_net True demo_queue ()))
   \<and> \<not> acked Rejected
   \<and> attempts demo_entry1 = 0
   \<and> map attempts (filter (\<lambda>x. item_id x = item_id demo_entry1)
        (rows (queue (syncPendingData demo_net True demo_queue ())))) = [0]
   \<and> map attempts (filter (\<lambda>x. item_id x = item_id demo_entry1)
        (rows (queue (syncPendingData demo_net True demo_queue ())))) \<noteq> [attempts demo_entry1 + 1]"
  by (simp add: demo_trace demo_acked demo_rows_after) (simp add: demo_entry1_def)

subsection \<open>Two drains over one queue\<close>

lemma subs_loop_head:
  "loop_head who rest sh t = (sh', t') \<Longrightarrow>
     subs (\<not> who) sh' = subs (\<not> who) sh \<and> db sh' = db sh"
  by (auto simp: loop_head_def subs_def split: list.splits)

lemma task_inv_cong: "subs who sh' = subs who sh \<Longrightarrow> task_inv who sh' p = task_inv who sh p"
  by (cases p) simp_all

lemma loop_head_inv:
  assumes "loop_head who rest sh t = (sh', t')" and "strict_ids (subs who sh @ rest)"
  shows "task_inv who sh' (pc t')"
  using assms by (auto simp: loop_head_def subs_def split: list.splits)

lemma subs_net_world [simp]: "subs who (sh\<lparr>net_world := w\<rparr>) = subs who sh"
  by (simp add: subs_def)

lemma subs_db [simp]: "subs who (sh\<lparr>db := d\<rparr>) = subs who sh"
  by (simp add: subs_def)

lemma task_step_inv:
  assumes st: "task_step net who sh t = (sh', t')"
    and inv: "store_inv (db sh)" and ti: "task_inv who sh (pc t)"
  shows "store_inv (db sh') \<and> task_inv who sh' (pc t') \<and> subs (\<not> who) sh' = subs (\<not> who) sh"
proof (cases "pc t")
  case Start
  with st inv ti show ?thesis by (auto split: if_splits simp: task_step_def strict_ids_def)
next
  case Reading
  with st have lh: "loop_head who (getPendingSyncs (db sh)) sh t = (sh', t')"
    by (simp add: task_step_def)
  have "strict_ids (subs who sh @ getPendingSyncs (db sh))"
    using inv ti Reading by (simp add: getPendingSyncs_inv strict_ids_def store_inv_def)
  from loop_head_inv [OF lh this] subs_loop_head [OF lh] inv show ?thesis by simp
next
  case (AwaitFetch item rest)
  obtain r w' where n: "net (net_world sh) item = (r, w')" by (cases "net (net_world sh) item")
  show ?thesis
  proof (cases "acked r")
    case True
    with st AwaitFetch n have "sh' = sh\<lparr>net_world := w'\<rparr>" "pc t' = AwaitRemove item rest"
      by (auto simp: task_step_def acked_def split: fetch_result.splits if_splits)
    with inv ti AwaitFetch show ?thesis by simp
  next
    case False
    with st AwaitFetch n
    have lh: "loop_head who rest (sh\<lparr>net_world := w'\<rparr>) (t\<lparr>t_failed := t_failed t + 1\<rparr>) = (sh', t')"
      by (auto simp: task_step_def acked_def split: fetch_result.splits if_splits)
    have "strict_ids (subs who (sh\<lparr>net_world := w'\<rparr>) @ rest)"
      using ti AwaitFetch by simp
    from loop_head_inv [OF lh this] subs_loop_head [OF lh] inv show ?thesis by simp
  qed
next
  case (AwaitRemove item rest)
  let ?sh = "sh\<lparr>db := removeFromSyncQueue (db sh) (item_id item)\<rparr>"
  from st AwaitRemove
  have lh: "loop_head who rest ?sh (t\<lparr>t_synced := t_synced t + 1\<rparr>) = (sh', t')"
    by (simp add: task_step_def)
  have "strict_ids (subs who ?sh @ rest)"
    using ti AwaitRemove by simp
  from loop_head_inv [OF lh this] subs_loop_head [OF lh] inv show ?thesis
    by (simp add: removeFromSyncQueue_def store_inv_delete)
next
  case Finished
  with st inv ti show ?thesis by (auto simp: task_step_def)
qed

lemma sched_step_inv: "two_inv c \<Longrightarrow> two_inv (sched_step net who c)"
proof (cases who)
  case True
  assume i: "two_inv c"
  obtain sh t where s: "task_step net True (common c) (second c) = (sh, t)"
    by (cases "task_step net True (common c) (second c)")
  from task_step_inv [OF s] i
  have "store_inv (db sh)" "task_inv True sh (pc t)" "subs False sh = subs False (common c)"
    by (simp_all add: two_inv_def)
  moreover from this(3) i have "task_inv False sh (pc (first c))"
    by (simp add: two_inv_def task_inv_cong [of False sh "common c"])
  ultimately show ?thesis
    using True s by (simp add: two_inv_def sched_step_def)
next
  case False
  assume i: "two_inv c"
  obtain sh t where s: "task_step net False (common c) (first c) = (sh, t)"
    by (cases "task_step net False (common c) (first c)")
  from task_step_inv [OF s] i
  have "store_inv (db sh)" "task_inv False sh (pc t)" "subs True sh = subs True (common c)"
    by (simp_all add: two_inv_def)
  moreover from this(3) i have "task_inv True sh (pc (second c))"
    by (simp add: two_inv_def task_inv_cong [of True sh "common c"])
  ultimately show ?thesis
    using False s by (simp add: two_inv_def sched_step_def)
qed

lemma run_inv: "two_inv c \<Longrightarrow> two_inv (run net sched c)"
  by (induction sched arbitrary: c) (simp_all add: sched_step_inv)

lemma launch_inv: "store_inv q \<Longrightarrow> two_inv (launch_two onl q w)"
  by (simp add: two_inv_def launch_two_def new_task_def subs_def)

lemma task_inv_strict: "task_inv who sh p \<Longrightarrow> strict_ids (subs who sh)"
  by (cases p) (auto simp: strict_ids_def sorted_wrt_append)

lemma strict_ids_count: "strict_ids xs \<Longrightarrow> length (filter (\<lambda>x. item_id x = k) xs) \<le> 1"
proof (induction xs)
  case Nil
  then show ?case by simp
next
  case (Cons a xs)
  have "filter (\<lambda>x. item_id x = k) xs = []" if "item_id a = k"
    using Cons.prems that by (auto simp: strict_ids_def filter_empty_conv)
  with Cons show ?case by (auto simp: strict_ids_def)
qed

lemma submissions_split:
  "submissions k sh = length (filter (\<lambda>x. item_id x = k) (subs False sh))
                    + length (filter (\<lambda>x. item_id x = k) (subs True sh))"
proof -
  have "length (filter (\<lambda>p. item_id (snd p) = k) ps) =
        length (filter (\<lambda>x. item_id x = k) (map snd (filter (\<lambda>p. fst p = False) ps)))
      + length (filter (\<lambda>x. item_id x = k) (map snd (filter (\<lambda>p. fst p = True) ps)))"
    for ps :: "(bool \<times> 'a sync_item) list"
    by (induction ps) (auto simp: comp_def)
  then show ?thesis by (simp add: submissions_def subs_def)
qed

subsection \<open>An invocation on its own is the drain\<close>

text \<open>
  Run alone, an invocation returns after finitely many segments, and it leaves the queue,
  the network and its counters as \<open>syncPendingData\<close> does, having sent the same requests
  in the same order.
\<close>

lemma run_append: "run net (xs @ ys) c = run net ys (run net xs c)"
  by (induction xs arbitrary: c) simp_all

lemma step_queue:
  "queue (sync_item_step net x s) =
     (if acked (fst (net (world s) x)) then removeFromSyncQueue (queue s) (item_id x) else queue s)"
  by (simp add: sync_item_step_def Let_def acked_def split: prod.splits fetch_result.splits)

lemma first_step_fetch:
  assumes "pc t = AwaitFetch item rest"
  shows "sched_step net False \<lparr>common = sh, first = t, second = sec\<rparr> =
     (if acked (fst (net (net_world sh) item))
      then \<lparr>common = sh\<lparr>net_world := snd (net (net_world sh) item)\<rparr>,
            first = t\<lparr>pc := AwaitRemove item rest\<rparr>, second = sec\<rparr>
      else (case rest of
              [] \<Rightarrow> \<lparr>common = sh\<lparr>net_world := snd (net (net_world sh) item)\<rparr>,
                     first = t\<lparr>t_failed := t_failed t + 1, pc := Finished\<rparr>, second = sec\<rparr>
            | x # xs \<Rightarrow>
                \<lparr>common = sh\<lparr>net_world := snd (net (net_world sh) item),
                              submitted := submitted sh @ [(False, x)]\<rparr>,
                 first = t\<lparr>t_failed := t_failed t + 1, pc := AwaitFetch x xs\<rparr>, second = sec\<rparr>))"
  using assms
  by (auto simp: sched_step_def task_step_def loop_head_def acked_def Let_def
      split: prod.splits fetch_result.splits list.splits)

lemma first_step_remove:
  assumes "pc t = AwaitRemove item rest"
  shows "sched_step net False \<lparr>common = sh, first = t, second = sec\<rparr> =
     (case rest of
        [] \<Rightarrow> \<lparr>common = sh\<lparr>db := removeFromSyncQueue (db sh) (item_id item)\<rparr>,
               first = t\<lparr>t_synced := t_synced t + 1, pc := Finished\<rparr>, second = sec\<rparr>
      | x # xs \<Rightarrow>
          \<lparr>common = sh\<lparr>db := removeFromSyncQueue (db sh) (item_id item),
                        submitted := submitted sh @ [(False, x)]\<rparr>,
           first = t\<lparr>t_synced := t_synced t + 1, pc := AwaitFetch x xs\<rparr>, second = sec\<rparr>)"
  using assms
  by (auto simp: sched_step_def task_step_def loop_head_def split: list.splits)

lemma map_fst_trace_loop: "map fst (trace (sync_loop net xs s)) = map fst (trace s) @ xs"
  by (simp add: trace_sync_loop map_fst_results)

lemma loop_refines:
  assumes "pc t = AwaitFetch item rest" "queue s = db sh" "world s = net_world sh"
    "synced s = t_synced t" "failed s = t_failed t"
    "map fst (trace s) @ [item] = map snd (submitted sh)"
  shows "\<exists>n. agrees (run net (replicate n False) \<lparr>common = sh, first = t, second = sec\<rparr>)
               (sync_loop net (item # rest) s)"
  using assms
proof (induction rest arbitrary: t item s sh)
  case Nil
  show ?case
  proof (cases "acked (fst (net (net_world sh) item))")
    case True
    have "agrees (run net (replicate 2 False) \<lparr>common = sh, first = t, second = sec\<rparr>)
               (sync_loop net [item] s)"
      using Nil True
      by (simp add: numeral_2_eq_2 first_step_fetch first_step_remove agrees_def
          step_queue step_world step_synced step_failed step_trace)
    then show ?thesis ..
  next
    case False
    have "agrees (run net (replicate 1 False) \<lparr>common = sh, first = t, second = sec\<rparr>)
               (sync_loop net [item] s)"
      using Nil False
      by (simp add: first_step_fetch agrees_def
          step_queue step_world step_synced step_failed step_trace)
    then show ?thesis ..
  qed
next
  case (Cons x xs)
  let ?s1 = "sync_item_step net item s"
  show ?case
  proof (cases "acked (fst (net (net_world sh) item))")
    case True
    let ?sh2 = "sh\<lparr>net_world := snd (net (net_world sh) item),
                    db := removeFromSyncQueue (db sh) (item_id item),
                    submitted := submitted sh @ [(False, x)]\<rparr>"
    let ?t2 = "t\<lparr>pc := AwaitRemove item (x # xs), t_synced := t_synced t + 1, pc := AwaitFetch x xs\<rparr>"
    have two: "run net (replicate 2 False) \<lparr>common = sh, first = t, second = sec\<rparr> =
        \<lparr>common = ?sh2, first = ?t2, second = sec\<rparr>"
      using Cons.prems True
      by (simp add: numeral_2_eq_2 first_step_fetch first_step_remove)
    have "\<exists>n. agrees (run net (replicate n False) \<lparr>common = ?sh2, first = ?t2, second = sec\<rparr>)
               (sync_loop net (x # xs) ?s1)"
      using Cons.prems True
      by (intro Cons.IH) (simp_all add: step_queue step_world step_synced step_failed step_trace)
    then obtain n where
      "agrees (run net (replicate n False) \<lparr>common = ?sh2, first = ?t2, second = sec\<rparr>)
               (sync_loop net (x # xs) ?s1)" ..
    then have "agrees (run net (replicate (2 + n) False) \<lparr>common = sh, first = t, second = sec\<rparr>)
               (sync_loop net (item # x # xs) s)"
      by (simp only: replicate_add run_append two sync_loop.simps)
    then show ?thesis ..
  next
    case False
    let ?sh2 = "sh\<lparr>net_world := snd (net (net_world sh) item),
                    submitted := submitted sh @ [(False, x)]\<rparr>"
    let ?t2 = "t\<lparr>t_failed := t_failed t + 1, pc := AwaitFetch x xs\<rparr>"
    have one: "run net (replicate 1 False) \<lparr>common = sh, first = t, second = sec\<rparr> =
        \<lparr>common = ?sh2, first = ?t2, second = sec\<rparr>"
      using Cons.prems False
      by (simp add: first_step_fetch)
    have "\<exists>n. agrees (run net (replicate n False) \<lparr>common = ?sh2, first = ?t2, second = sec\<rparr>)
               (sync_loop net (x # xs) ?s1)"
      using Cons.prems False
      by (intro Cons.IH) (simp_all add: step_queue step_world step_synced step_failed step_trace)
    then obtain n where
      "agrees (run net (replicate n False) \<lparr>common = ?sh2, first = ?t2, second = sec\<rparr>)
               (sync_loop net (x # xs) ?s1)" ..
    then have "agrees (run net (replicate (1 + n) False) \<lparr>common = sh, first = t, second = sec\<rparr>)
               (sync_loop net (item # x # xs) s)"
      by (simp only: replicate_add run_append one sync_loop.simps)
    then show ?thesis ..
  qed
qed

lemma single_drain_refines:
  "\<exists>n. agrees (run net (replicate n False) (launch_two onl q w)) (syncPendingData net onl q w)"
proof (cases onl)
  case False
  have "agrees (run net (replicate 1 False) (launch_two onl q w)) (syncPendingData net onl q w)"
    using False
    by (simp add: launch_two_def new_task_def sched_step_def task_step_def agrees_def
        syncPendingData_def)
  then show ?thesis ..
next
  case True
  let ?s0 = "\<lparr>queue = q, world = w, synced = 0, failed = 0, trace = []\<rparr>"
  show ?thesis
  proof (cases "getPendingSyncs q")
    case Nil
    have "agrees (run net (replicate 2 False) (launch_two onl q w)) (syncPendingData net onl q w)"
      using True Nil
      by (simp add: numeral_2_eq_2 launch_two_def new_task_def sched_step_def task_step_def
          loop_head_def agrees_def syncPendingData_def)
    then show ?thesis ..
  next
    case (Cons x xs)
    let ?sh = "\<lparr>online = True, db = q, net_world = w, submitted = [(False, x)]\<rparr>"
    let ?t = "\<lparr>pc = AwaitFetch x xs, t_synced = 0, t_failed = 0\<rparr>"
    have two: "run net (replicate 2 False) (launch_two True q w) =
        \<lparr>common = ?sh, first = ?t, second = new_task\<rparr>"
      using Cons
      by (simp add: numeral_2_eq_2 launch_two_def new_task_def sched_step_def task_step_def
          loop_head_def)
    have "\<exists>n. agrees (run net (replicate n False) \<lparr>common = ?sh, first = ?t, second = new_task\<rparr>)
               (sync_loop net (x # xs) ?s0)"
      by (rule loop_refines) simp_all
    then obtain n where
      "agrees (run net (replicate n False) \<lparr>common = ?sh, first = ?t, second = new_task\<rparr>)
               (sync_loop net (x # xs) ?s0)" ..
    moreover have "syncPendingData net True q w = sync_loop net (x # xs) ?s0"
      using Cons by (simp add: syncPendingData_def)
    ultimately have "agrees (run net (replicate (2 + n) False) (launch_two True q w))
        (syncPendingData net True q w)"
      by (simp only: replicate_add run_append two)
    with True have "agrees (run net (replicate (2 + n) False) (launch_two onl q w))
        (syncPendingData net onl q w)"
      by simp
    then show ?thesis ..
  qed
qed

subsection \<open>What two invocations send\<close>

lemma demo_two_run:
  "submitted (common (run accepting_net [False, True, False, True] (launch_two True demo_queue ()))) =
     [(False, demo_entry1), (True, demo_entry1)]"
  by (simp add: launch_two_def new_task_def sched_step_def task_step_def loop_head_def
      getPendingSyncs_inv [OF demo_queue_inv] demo_queue_rows)

text \<open>
  Claim C4, as the code has it. \<open>syncPendingData\<close> has no guard against a second invocation:
  nothing in the file records that a drain is in progress. What holds for two invocations
  launched over the same queue, in whatever order their awaited promises settle, is that
  each invocation sends the entries it sends in strictly increasing order of id, so no
  invocation sends an entry twice, and an entry is sent to the network at most twice in
  all, once by each invocation.
\<close>

theorem two_drains_once_per_invocation:
  assumes "store_inv q"
  shows "strict_ids (subs False (common (run net sched (launch_two onl q w))))
       \<and> strict_ids (subs True (common (run net sched (launch_two onl q w))))
       \<and> submissions k (common (run net sched (launch_two onl q w))) \<le> 2"
proof -
  let ?c = "run net sched (launch_two onl q w)"
  have i: "two_inv ?c"
    using assms by (simp add: run_inv launch_inv)
  then have a: "strict_ids (subs False (common ?c))" and b: "strict_ids (subs True (common ?c))"
    by (auto simp: two_inv_def dest: task_inv_strict)
  from strict_ids_count [OF a, of k] strict_ids_count [OF b, of k]
  have "submissions k (common ?c) \<le> 2"
    by (simp add: submissions_split)
  with a b show ?thesis by simp
qed

theorem two_drains_once_per_invocation_witness:
  "store_inv demo_queue
   \<and> submissions 1 (common (run accepting_net [False, True, False, True]
                               (launch_two True demo_queue ()))) \<le> 2
   \<and> subs False (common (run accepting_net [False, True, False, True]
                            (launch_two True demo_queue ()))) = [demo_entry1]"
proof -
  note t = two_drains_once_per_invocation [OF demo_queue_inv, of accepting_net
      "[False, True, False, True]" True "()" 1]
  have "subs False (common (run accepting_net [False, True, False, True]
                            (launch_two True demo_queue ()))) = [demo_entry1]"
    unfolding subs_def demo_two_run by simp
  with demo_queue_inv t [THEN conjunct2, THEN conjunct2] show ?thesis by blast
qed

text \<open>
  Claim C4, as the spec states it, fails. Two invocations are launched over the concrete
  queue while online; each is started and then reads the pending entries before the other
  has removed anything. Both then send the request for the entry with id 1: it is
  submitted twice.
\<close>

theorem two_drains_submit_entry_twice:
  "submissions 1 (common (run accepting_net [False, True, False, True]
                            (launch_two True demo_queue ()))) = 2
   \<and> \<not> submissions 1 (common (run accepting_net [False, True, False, True]
                            (launch_two True demo_queue ()))) \<le> 1"
  unfolding submissions_def demo_two_run by (simp add: demo_entry1_def)

section \<open>Properties of the fetch handler\<close>

lemma cache_of_open: "cache_of name (caches_open name cs) = cache_of name cs"
  by (simp add: cache_of_def caches_open_def map_add_def split: option.splits)

lemma caches_match_not_GET: "http_method req \<noteq> ''GET'' \<Longrightarrow> caches_match cs req = None"
  by (induction cs req rule: caches_match.induct) (simp_all add: cache_match_def)

lemma tile_branch_cached:
  "cache_match (cache_of TILE_CACHE cs) req = Some r \<Longrightarrow>
     reply (tile_branch net cs req) = Inr r \<and> fetched (tile_branch net cs req) = []"
  by (simp add: tile_branch_def cache_of_open)

lemma tile_branch_uncached:
  "cache_match (cache_of TILE_CACHE cs) req = None \<Longrightarrow>
     reply (tile_branch net cs req) =
       (case net req of Resolved r \<Rightarrow> Inr r | Rejected \<Rightarrow> Inr tile_placeholder)
     \<and> fetched (tile_branch net cs req) = [req]"
  by (simp add: tile_branch_def cache_of_open split: fetch_result.splits)

lemma demo_post_class:
  "\<not> is_tile_host (hostname demo_post)" "is_api_path (pathname demo_post)"
  "http_method demo_post \<noteq> ''GET''"
  by (simp_all add: demo_post_def is_tile_host_def is_api_path_def sublist_code prefix_code)

lemma demo_get_class:
  "\<not> is_tile_host (hostname demo_get)" "is_api_path (pathname demo_get)"
  by (simp_all add: demo_get_def is_tile_host_def is_api_path_def sublist_code prefix_code)

lemma demo_tile_class: "is_tile_host (hostname demo_tile)"
  by (simp add: demo_tile_def is_tile_host_def sublist_code prefix_code)

lemma map_of_caches_open: "map_of (caches_open name cs) name = Some (cache_of name cs)"
  by (simp add: caches_open_def cache_of_def map_add_def split: option.splits)

lemma map_of_update_entry:
  "map_of (map (\<lambda>(n, c). if n = name then (n, g c) else (n, c)) xs) name =
     map_option g (map_of xs name)"
  by (induction xs) auto

lemma cache_of_caches_put:
  "cache_of name (caches_put name req r cs) = cache_put (cache_of name cs) req r"
  by (simp add: caches_put_def cache_of_def [of name "map _ _"] map_of_update_entry
      map_of_caches_open)

lemma caches_open_idem: "caches_open name (caches_open name cs) = caches_open name cs"
  using map_of_caches_open [of name cs] by (simp add: caches_open_def [of name "caches_open name cs"])

text \<open>
  Claim C8. For a request to a map-tile host the handler always answers with a response and
  never with a failure. If the tile cache has the tile, the answer is the cached response
  and nothing is sent to the network. If it has not, the request is sent to the network,
  once. If the network answers, that answer is the reply, and it is put into the tile
  cache, where the next request for the tile finds it (for a GET request and an answer
  whose status is not 206). If the network fetch fails, the reply is the placeholder,
  status 404 with an empty body, and nothing is stored.
\<close>

theorem tile_request_cache_first:
  assumes "is_tile_host (hostname req)"
  shows "(\<exists>r. reply (fetch_handler net cs req) = Inr r)
       \<and> (\<forall>r. cache_match (cache_of TILE_CACHE cs) req = Some r \<longrightarrow>
              reply (fetch_handler net cs req) = Inr r \<and> fetched (fetch_handler net cs req) = [])
       \<and> (cache_match (cache_of TILE_CACHE cs) req = None \<and> net req = Rejected \<longrightarrow>
              reply (fetch_handler net cs req) = Inr tile_placeholder
              \<and> body tile_placeholder = [] \<and> status tile_placeholder = 404)
       \<and> (cache_match (cache_of TILE_CACHE cs) req = None \<longrightarrow>
              fetched (fetch_handler net cs req) = [req])
       \<and> (\<forall>r. cache_match (cache_of TILE_CACHE cs) req = None \<and> net req = Resolved r \<longrightarrow>
              reply (fetch_handler net cs req) = Inr r
              \<and> caches_after (fetch_handler net cs req) = caches_put TILE_CACHE req r cs
              \<and> (http_method req = ''GET'' \<and> status r \<noteq> 206 \<longrightarrow>
                   cache_match (cache_of TILE_CACHE (caches_after (fetch_handler net cs req))) req
                     = Some r))
       \<and> (cache_match (cache_of TILE_CACHE cs) req = None \<and> net req = Rejected \<longrightarrow>
              cache_match (cache_of TILE_CACHE (caches_after (fetch_handler net cs req))) req = None)"
proof -
  have h: "fetch_handler net cs req = tile_branch net cs req"
    using assms by (simp add: fetch_handler_def)
  have put: "caches_put TILE_CACHE req r (caches_open TILE_CACHE cs) = caches_put TILE_CACHE req r cs"
    for r by (simp add: caches_put_def caches_open_idem)
  show ?thesis
  proof (cases "cache_match (cache_of TILE_CACHE cs) req")
    case None
    show ?thesis
    proof (cases "net req")
      case (Resolved r)
      have "caches_after (tile_branch net cs req) = caches_put TILE_CACHE req r cs"
        using None Resolved by (simp add: tile_branch_def cache_of_open put)
      moreover have "cache_match (cache_of TILE_CACHE (caches_put TILE_CACHE req r cs)) req = Some r"
        if "http_method req = ''GET'' \<and> status r \<noteq> 206"
        using that by (simp add: cache_of_caches_put cache_put_def cache_match_def)
      ultimately show ?thesis
        using tile_branch_uncached [OF None, of net] None Resolved by (simp add: h)
    next
      case Rejected
      have "caches_after (tile_branch net cs req) = caches_open TILE_CACHE cs"
        using None Rejected by (simp add: tile_branch_def cache_of_open)
      then show ?thesis
        using tile_branch_uncached [OF None, of net] None Rejected
        by (simp add: h tile_placeholder_def cache_of_open)
    qed
  next
    case (Some r)
    from tile_branch_cached [OF Some, of net] show ?thesis
      by (simp add: h Some)
  qed
qed

theorem tile_request_cache_first_witness:
  "is_tile_host (hostname demo_tile)
   \<and> cache_match (cache_of TILE_CACHE []) demo_tile = None
   \<and> reply (fetch_handler (\<lambda>r. Rejected) [] demo_tile) = Inr tile_placeholder
   \<and> fetched (fetch_handler (\<lambda>r. Rejected) [] demo_tile) = [demo_tile]
   \<and> reply (fetch_handler (\<lambda>r. Resolved demo_ok) [] demo_tile) = Inr demo_ok
   \<and> fetched (fetch_handler (\<lambda>r. Resolved demo_ok) [] demo_tile) = [demo_tile]
   \<and> cache_match (cache_of TILE_CACHE
        (caches_after (fetch_handler (\<lambda>r. Resolved demo_ok) [] demo_tile))) demo_tile = Some demo_ok
   \<and> cache_match (cache_of TILE_CACHE [(TILE_CACHE, [url demo_tile \<mapsto> demo_ok])]) demo_tile = Some demo_ok
   \<and> reply (fetch_handler (\<lambda>r. Rejected) [(TILE_CACHE, [url demo_tile \<mapsto> demo_ok])] demo_tile) = Inr demo_ok
   \<and> fetched (fetch_handler (\<lambda>r. Rejected) [(TILE_CACHE, [url demo_tile \<mapsto> demo_ok])] demo_tile) = []"
proof -
  have none: "cache_match (cache_of TILE_CACHE []) demo_tile = None"
    by (simp add: cache_of_def cache_match_def)
  have some: "cache_match (cache_of TILE_CACHE [(TILE_CACHE, [url demo_tile \<mapsto> demo_ok])]) demo_tile
      = Some demo_ok"
    by (simp add: cache_of_def cache_match_def demo_tile_def)
  have get: "http_method demo_tile = ''GET'' \<and> status demo_ok \<noteq> 206"
    by (simp add: demo_tile_def demo_ok_def)
  have rej: "(\<lambda>r. Rejected) demo_tile = Rejected" and res: "(\<lambda>r. Resolved demo_ok) demo_tile = Resolved demo_ok"
    by simp_all
  note a = tile_request_cache_first [OF demo_tile_class, of "\<lambda>r. Rejected" "[]"]
  note b = tile_request_cache_first [OF demo_tile_class, of "\<lambda>r. Rejected"
      "[(TILE_CACHE, [url demo_tile \<mapsto> demo_ok])]"]
  note c = tile_request_cache_first [OF demo_tile_class, of "\<lambda>r. Resolved demo_ok" "[]"]
  from a none rej
  have 1: "reply (fetch_handler (\<lambda>r. Rejected) [] demo_tile) = Inr tile_placeholder"
    and 2: "fetched (fetch_handler (\<lambda>r. Rejected) [] demo_tile) = [demo_tile]"
    by blast+
  from c none res get
  have 3: "reply (fetch_handler (\<lambda>r. Resolved demo_ok) [] demo_tile) = Inr demo_ok"
    and 4: "fetched (fetch_handler (\<lambda>r. Resolved demo_ok) [] demo_tile) = [demo_tile]"
    and 5: "cache_match (cache_of TILE_CACHE
        (caches_after (fetch_handler (\<lambda>r. Resolved demo_ok) [] demo_tile))) demo_tile = Some demo_ok"
    by blast+
  from b some
  have 6: "reply (fetch_handler (\<lambda>r. Rejected) [(TILE_CACHE, [url demo_tile \<mapsto> demo_ok])] demo_tile)
      = Inr demo_ok"
    and 7: "fetched (fetch_handler (\<lambda>r. Rejected) [(TILE_CACHE, [url demo_tile \<mapsto> demo_ok])] demo_tile)
      = []"
    by blast+
  from demo_tile_class none some 1 2 3 4 5 6 7 show ?thesis by blast
qed

text \<open>
  Claim C10. When a request whose path starts with \<open>/api/\<close> (and whose host is not a tile
  host) fails at the network and no cache has a response for it, the handler answers with a
  response of status 200 whose body is the JSON text of
  \<open>{ offline: true, error: 'No connection' }\<close> and whose content type is
  \<open>application/json\<close>; \<open>ok\<close> is true of that response, as of a successful answer of the server.
\<close>

theorem api_offline_marker_is_ok:
  assumes \<open>\<not> is_tile_host (hostname req)\<close> and \<open>is_api_path (pathname req)\<close>
    and \<open>net req = Rejected\<close> and \<open>caches_match cs req = None\<close>
  shows \<open>reply (fetch_handler net cs req) =
           Inr \<lparr>status = 200, body = ''{"offline":true,"error":"No connection"}'',
                content_type = Some ''application/json''\<rparr>
         \<and> ok \<lparr>status = 200, body = ''{"offline":true,"error":"No connection"}'',
                content_type = Some ''application/json''\<rparr>\<close>
  using assms by (simp add: fetch_handler_def api_branch_def offline_marker_def ok_def)

theorem api_offline_marker_is_ok_witness:
  \<open>\<not> is_tile_host (hostname demo_get) \<and> is_api_path (pathname demo_get)
   \<and> caches_match [] demo_get = None
   \<and> reply (fetch_handler (\<lambda>r. Rejected) [] demo_get) =
           Inr \<lparr>status = 200, body = ''{"offline":true,"error":"No connection"}'',
                content_type = Some ''application/json''\<rparr>\<close>
proof -
  have m: "caches_match [] demo_get = None" by simp
  have n: "(\<lambda>r. Rejected) demo_get = Rejected" by simp
  from api_offline_marker_is_ok [OF demo_get_class n m] demo_get_class m
  show ?thesis by blast
qed

text \<open>
  Claim C5, as the code has it. A request whose path starts with \<open>/api/\<close>, whose method is
  not GET and whose host is not a tile host is sent to the network, once; no cache is read
  for the answer and none is written. If the network answers, that answer is the reply.
  If the network fails, the handler does not pass the failure on: it replies with the
  offline marker, a response of status 200.
\<close>

theorem api_mutation_pass_through:
  assumes "\<not> is_tile_host (hostname req)" and "is_api_path (pathname req)"
    and "http_method req \<noteq> ''GET''"
  shows "fetched (fetch_handler net cs req) = [req]
       \<and> caches_after (fetch_handler net cs req) = cs
       \<and> (\<forall>r. net req = Resolved r \<longrightarrow> reply (fetch_handler net cs req) = Inr r)
       \<and> (net req = Rejected \<longrightarrow> reply (fetch_handler net cs req) = Inr offline_marker)"
proof -
  have h: "fetch_handler net cs req = api_branch net cs req"
    using assms by (simp add: fetch_handler_def)
  have m: "caches_match cs req = None"
    using assms(3) by (rule caches_match_not_GET)
  show ?thesis
    by (cases "net req") (simp_all add: h m api_branch_def assms(3))
qed

theorem api_mutation_pass_through_witness:
  "\<not> is_tile_host (hostname demo_post) \<and> is_api_path (pathname demo_post)
   \<and> http_method demo_post \<noteq> ''GET''
   \<and> fetched (fetch_handler (\<lambda>r. Resolved demo_ok) [] demo_post) = [demo_post]
   \<and> caches_after (fetch_handler (\<lambda>r. Resolved demo_ok) [] demo_post) = []
   \<and> reply (fetch_handler (\<lambda>r. Resolved demo_ok) [] demo_post) = Inr demo_ok"
proof -
  note t = api_mutation_pass_through [OF demo_post_class, of "\<lambda>r. Resolved demo_ok" "[]"]
  from t have "reply (fetch_handler (\<lambda>r. Resolved demo_ok) [] demo_post) = Inr demo_ok"
    by blast
  with t demo_post_class show ?thesis by blast
qed

text \<open>
  Claim C5, as the spec states it, fails in its last part. A POST to
  \<open>/api/projects/7/gps\<close> fails at the network with nothing cached: the caller does not get
  the failure but the offline marker, a response for which \<open>ok\<close> is true.
\<close>

theorem api_mutation_failure_not_propagated:
  "reply (fetch_handler (\<lambda>r. Rejected) [] demo_post) \<noteq> Inl NetworkError
   \<and> reply (fetch_handler (\<lambda>r. Rejected) [] demo_post) = Inr offline_marker
   \<and> ok offline_marker"
  by (simp add: fetch_handler_def demo_post_class api_branch_def offline_marker_def ok_def)

section \<open>Properties of the GPS capture\<close>

lemma saveGPSPoint_offline:
  assumes "\<not> onLine cap" "has_OfflineManager cap" "form_label cap \<noteq> []"
    "form_lat cap = Some la" "form_lon cap = Some lo"
  shows "saveGPSPoint cap st =
           (push_point (make_point cap la lo) (save_offline cap (make_point cap la lo) st), ToastSaved)"
  using assms by (simp add: saveGPSPoint_def Let_def)

lemma demo_saved:
  "fst (saveGPSPoint demo_capture demo_visit) =
     push_point (make_point demo_capture 39 (- 105))
       (save_offline demo_capture (make_point demo_capture 39 (- 105)) demo_visit)"
  by (simp add: saveGPSPoint_def demo_capture_def Let_def)

lemma demo_capture_offline:
  "\<not> onLine demo_capture" "has_OfflineManager demo_capture" "form_label demo_capture \<noteq> []"
  "form_lat demo_capture = Some 39" "form_lon demo_capture = Some (- 105)"
  by (simp_all add: demo_capture_def)

lemma demo_visit_inv: "store_inv (sync_queue demo_visit)"
  by (simp add: demo_visit_def store_inv_empty)

text \<open>
  Claim C6, as the code has it. A point captured offline (with a label, coordinates and the
  offline manager present) is appended to the in-memory points, is the payload of the entry
  appended to the sync queue, and so is the payload of the request a later drain sends for
  that entry: these three are the same point, field for field. The record added to the
  local GPS-point store has the point's label, coordinates, altitude fields, accuracy and
  type, but its timestamp is the number \<open>Date.now()\<close> taken by \<open>saveGPSPointLocal\<close>, not the
  ISO string of the point, and it has the further fields \<open>project_id\<close>, \<open>synced = false\<close> and
  \<open>localId\<close>.
\<close>

theorem offline_capture_copies:
  assumes off: "\<not> onLine cap" and mgr: "has_OfflineManager cap"
    and lab: "form_label cap \<noteq> []" and la: "form_lat cap = Some la" and lo: "form_lon cap = Some lo"
    and inv: "store_inv (sync_queue st)"
  shows "gps_points (fst (saveGPSPoint cap st)) = gps_points st @ [make_point cap la lo]
       \<and> rows (sync_queue (fst (saveGPSPoint cap st))) =
           rows (sync_queue st) @
             [\<lparr>item_id = key_gen (sync_queue st), action = ''POST'',
               endpoint = gps_endpoint (projectId cap), data = make_point cap la lo,
               timestamp = now_queue cap, attempts = 0\<rparr>]
       \<and> map (\<lambda>p. data (fst p)) (trace (syncPendingData net True (sync_queue (fst (saveGPSPoint cap st))) w)) =
           map data (rows (sync_queue st)) @ [make_point cap la lo]
       \<and> gps_rows (local_points (fst (saveGPSPoint cap st))) =
           gps_rows (local_points st) @
             [\<lparr>label = label (make_point cap la lo), lat = lat (make_point cap la lo),
               lon = lon (make_point cap la lo), altitude_m = altitude_m (make_point cap la lo),
               elevation_ft = elevation_ft (make_point cap la lo),
               altitude_accuracy = altitude_accuracy (make_point cap la lo),
               accuracy = accuracy (make_point cap la lo),
               point_type = point_type (make_point cap la lo),
               point_timestamp = EpochMillis (now_local cap),
               project_id = projectId cap, point_synced = False,
               localId = gps_key_gen (local_points st)\<rparr>]
       \<and> point_timestamp (make_point cap la lo) = IsoString (iso_now cap)"
proof -
  let ?p = "make_point cap la lo"
  let ?st = "fst (saveGPSPoint cap st)"
  have st': "?st = push_point ?p (save_offline cap ?p st)"
    by (simp add: saveGPSPoint_offline [OF off mgr lab la lo])
  have q: "sync_queue ?st =
      addToSyncQueue (now_queue cap) (sync_queue st) ''POST'' (gps_endpoint (projectId cap)) ?p"
    by (simp add: st' push_point_def save_offline_def)
  have inv': "store_inv (sync_queue ?st)"
    unfolding q addToSyncQueue_def using inv by (rule store_inv_add)
  have mem: "gps_points ?st = gps_points st @ [?p]"
    by (simp add: st' push_point_def save_offline_def)
  have rws: "rows (sync_queue ?st) = rows (sync_queue st) @
             [\<lparr>item_id = key_gen (sync_queue st), action = ''POST'',
               endpoint = gps_endpoint (projectId cap), data = ?p,
               timestamp = now_queue cap, attempts = 0\<rparr>]"
    by (simp add: q addToSyncQueue_def store_add_def)
  have "map fst (trace (syncPendingData net True (sync_queue ?st) w)) = rows (sync_queue ?st)"
    by (simp add: drain_trace map_fst_results getPendingSyncs_inv [OF inv'])
  from arg_cong [OF this, of "map data"]
  have sent: "map (\<lambda>p. data (fst p)) (trace (syncPendingData net True (sync_queue ?st) w)) =
           map data (rows (sync_queue st)) @ [?p]"
    by (simp add: rws comp_def)
  have loc: "gps_rows (local_points ?st) =
           gps_rows (local_points st) @
             [\<lparr>label = label ?p, lat = lat ?p, lon = lon ?p, altitude_m = altitude_m ?p,
               elevation_ft = elevation_ft ?p, altitude_accuracy = altitude_accuracy ?p,
               accuracy = accuracy ?p, point_type = point_type ?p,
               point_timestamp = EpochMillis (now_local cap),
               project_id = projectId cap, point_synced = False,
               localId = gps_key_gen (local_points st)\<rparr>]"
    by (simp add: st' push_point_def save_offline_def saveGPSPointLocal_def)
  have ts: "point_timestamp ?p = IsoString (iso_now cap)"
    by (simp add: make_point_def Let_def)
  from mem rws sent loc ts show ?thesis by simp
qed

theorem offline_capture_copies_witness:
  "\<not> onLine demo_capture \<and> has_OfflineManager demo_capture \<and> form_label demo_capture \<noteq> []
   \<and> form_lat demo_capture = Some 39 \<and> form_lon demo_capture = Some (- 105)
   \<and> store_inv (sync_queue demo_visit)
   \<and> gps_points (fst (saveGPSPoint demo_capture demo_visit)) = [make_point demo_capture 39 (- 105)]
   \<and> map (\<lambda>p. data (fst p))
        (trace (syncPendingData (\<lambda>w item. (Rejected, w)) True
                  (sync_queue (fst (saveGPSPoint demo_capture demo_visit))) ())) =
      [make_point demo_capture 39 (- 105)]"
proof -
  note t = offline_capture_copies [OF demo_capture_offline demo_visit_inv,
      of "\<lambda>w item. (Rejected, w)" "()"]
  have e: "gps_points demo_visit = []" "rows (sync_queue demo_visit) = []"
    by (simp_all add: demo_visit_def empty_store_def)
  have a: "gps_points (fst (saveGPSPoint demo_capture demo_visit)) = [make_point demo_capture 39 (- 105)]"
    using t [THEN conjunct1] by (simp only: e append_Nil)
  have b: "map (\<lambda>p. data (fst p))
        (trace (syncPendingData (\<lambda>w item. (Rejected, w)) True
                  (sync_queue (fst (saveGPSPoint demo_capture demo_visit))) ())) =
      [make_point demo_capture 39 (- 105)]"
    using t [THEN conjunct2, THEN conjunct2, THEN conjunct1] by (simp only: e list.map append_Nil)
  from demo_capture_offline demo_visit_inv a b show ?thesis by blast
qed

text \<open>
  Claim C6, as the spec states it, fails for the copy in the local store. After the concrete
  offline capture the point in memory has the timestamp \<open>2024-05-01T12:00:00.000Z\<close>, a
  string, and the record in the local store has the timestamp \<open>1714564800000\<close>, a number:
  reduced to the fields of a point, the stored record is not the point in memory.
\<close>

theorem offline_capture_timestamp_differs:
  "map point_timestamp (gps_points (fst (saveGPSPoint demo_capture demo_visit))) =
      [IsoString ''2024-05-01T12:00:00.000Z'']
   \<and> map point_timestamp (gps_rows (local_points (fst (saveGPSPoint demo_capture demo_visit)))) =
      [EpochMillis 1714564800000]
   \<and> map gps_point.truncate (gps_rows (local_points (fst (saveGPSPoint demo_capture demo_visit))))
      \<noteq> gps_points (fst (saveGPSPoint demo_capture demo_visit))"
  unfolding demo_saved
  by (simp add: push_point_def save_offline_def saveGPSPointLocal_def
      make_point_def Let_def demo_capture_def demo_visit_def gps_point.truncate_def)

section \<open>Properties of the tile prefetch\<close>

subsection \<open>Rounding to a double\<close>

text \<open>
  A number \<open>m * 2^k\<close> with \<open>\<bar>m\<bar> < 2^53\<close> and \<open>k \<ge> -1074\<close> below \<open>2^1024\<close> is a double, so rounding
  leaves it as it is; every integer up to \<open>2^53\<close> in magnitude is one, and below \<open>2^53\<close>
  adding 1 is exact. \<open>2^53 + 1\<close> is not a double: it lies half-way between \<open>2^53\<close> and
  \<open>2^53 + 2\<close> and rounds to \<open>2^53\<close>, whose mantissa is even.
\<close>

lemma pow2_powr: "pow2 e = 2 powr (of_int e)"
  by (simp add: pow2_def powr_real_of_int field_simps)

lemma pow2_pos [simp]: "0 < pow2 e"
  by (simp add: pow2_def)

lemma pow2_add: "pow2 (a + b) = pow2 a * pow2 b"
  by (simp add: pow2_powr powr_add)

lemma pow2_nat: "0 \<le> e \<Longrightarrow> pow2 e = of_int (2 ^ nat e)"
  by (simp add: pow2_def)

lemma pow2_mono: "a \<le> b \<Longrightarrow> pow2 a \<le> pow2 b"
  by (simp add: pow2_powr)

lemma round_even_int [simp]: "round_even (of_int m) = m"
  by (simp add: round_even_def)

lemma floor_log2_less:
  assumes "0 < x" "x < pow2 n"
  shows "\<lfloor>log 2 x\<rfloor> < n"
proof -
  have "log 2 x < log 2 (2 powr (of_int n))"
    using assms by (subst log_less_cancel_iff) (simp_all add: pow2_powr)
  then have "log 2 x < of_int n"
    by simp
  then show ?thesis
    by (simp add: floor_less_iff)
qed

lemma expo_eq:
  assumes "pow2 e \<le> \<bar>x\<bar>" "\<bar>x\<bar> < pow2 (e + 1)" "- 1022 \<le> e"
  shows "expo x = e"
proof -
  have pos: "0 < \<bar>x\<bar>" using assms(1) pow2_pos [of e] by linarith
  have "\<lfloor>log 2 \<bar>x\<bar>\<rfloor> = e"
    using assms(1,2) pos by (simp add: floor_log_eq_powr_iff pow2_powr)
  with assms(3) show ?thesis by (simp add: expo_def)
qed

lemma rnd_exact:
  assumes x: "x = of_int m * pow2 k" and m: "\<bar>m\<bar> < 2 ^ 53" and k: "- 1074 \<le> k"
    and big: "\<bar>x\<bar> < 2 ^ 1024"
  shows "rnd x = Fin x"
proof (cases "x = 0")
  case True
  then show ?thesis by (simp add: rnd_def)
next
  case False
  have "\<bar>x\<bar> = of_int \<bar>m\<bar> * pow2 k"
    by (simp add: x abs_mult abs_of_pos)
  also have "\<dots> < 2 ^ 53 * pow2 k"
  proof -
    have "real_of_int \<bar>m\<bar> < real_of_int (2 ^ 53)"
      using m by (simp only: of_int_less_iff)
    then show ?thesis by simp
  qed
  also have "\<dots> = pow2 53 * pow2 k"
    by (simp add: pow2_def [of 53])
  also have "\<dots> = pow2 (53 + k)"
    by (simp only: pow2_add)
  finally have "\<lfloor>log 2 \<bar>x\<bar>\<rfloor> < 53 + k"
    using False by (intro floor_log2_less) simp_all
  with k have le: "expo x - 52 \<le> k"
    by (simp add: expo_def)
  define n where "n = nat (k - (expo x - 52))"
  have kk: "k = (expo x - 52) + int n"
    using le by (simp add: n_def)
  define u where "u = pow2 (expo x - 52)"
  have upos: "0 < u" by (simp add: u_def)
  have "pow2 k = u * of_int (2 ^ n)"
    unfolding u_def by (subst kk, subst pow2_add) (simp add: pow2_def)
  then have "x = u * of_int (m * 2 ^ n)"
    by (simp only: x of_int_mult mult_ac)
  then have q: "x / u = of_int (m * 2 ^ n)"
    using upos by simp
  have r: "of_int (round_even (x / u)) * u = x"
    by (simp only: q round_even_int) (simp only: q [symmetric], simp add: upos less_imp_neq [THEN not_sym])
  have n: "nearest x = x"
    using r by (simp add: nearest_def u_def)
  show ?thesis
    using False big by (simp add: rnd_def n)
qed

lemma jmul_Fin:
  "jmul (Fin a) (Fin b) =
     (if a = 0 \<or> b = 0 then (if (a < 0) \<noteq> (b < 0) then NZero else Fin 0) else rnd (a * b))"
  by (simp add: jmul_def is_zero_def is_inf_def)

lemma jdiv_Fin:
  "jdiv (Fin a) (Fin b) =
     (if b = 0 then (if a = 0 then NaN else if a < 0 then NInf else PInf)
      else if a = 0 then (if b < 0 then NZero else Fin 0) else rnd (a / b))"
  by (simp add: jdiv_def is_zero_def is_inf_def)

lemma rnd_int:
  assumes "\<bar>k\<bar> \<le> 2 ^ 53"
  shows "rnd (of_int k) = Fin (of_int k)"
proof (cases "\<bar>k\<bar> < 2 ^ 53")
  case True
  have big: "\<bar>real_of_int k\<bar> < 2 ^ 1024"
  proof -
    have "real_of_int \<bar>k\<bar> < real_of_int (2 ^ 53)" using True by (simp only: of_int_less_iff)
    also have "\<dots> < 2 ^ 1024" by simp
    finally show ?thesis by simp
  qed
  show ?thesis
    by (rule rnd_exact [of _ k 0]) (use True big in \<open>simp_all add: pow2_def\<close>)
next
  case False
  with assms have "k = 2 ^ 53 \<or> k = - (2 ^ 53)" by linarith
  then show ?thesis
  proof
    assume k: "k = 2 ^ 53"
    show ?thesis
      by (rule rnd_exact [of _ "2 ^ 52" 1]) (simp_all add: k pow2_def)
  next
    assume k: "k = - (2 ^ 53)"
    show ?thesis
      by (rule rnd_exact [of _ "- (2 ^ 52)" 1]) (simp_all add: k pow2_def)
  qed
qed

lemma inc_int:
  assumes "- (2 ^ 53) \<le> k" "k < 2 ^ 53"
  shows "jadd (Fin (of_int k)) (Fin 1) = Fin (of_int (k + 1))"
proof -
  have "\<bar>k + 1\<bar> \<le> 2 ^ 53" using assms by linarith
  from rnd_int [OF this] show ?thesis by simp
qed

lemma rnd_stuck: "rnd 9007199254740993 = Fin 9007199254740992"
proof -
  have e: "expo 9007199254740993 = 53"
    by (rule expo_eq) (simp_all add: pow2_def)
  show ?thesis
    by (simp add: rnd_def nearest_def e pow2_def round_even_def)
qed

lemma inc_stuck: "jadd (Fin 9007199254740992) (Fin 1) = Fin 9007199254740992"
  by (simp add: rnd_stuck)

lemma rnd_eval:
  assumes "pow2 e \<le> \<bar>x\<bar>" "\<bar>x\<bar> < pow2 (e + 1)" "- 1022 \<le> e"
    and "round_even (x / pow2 (e - 52)) = n" and "v = of_int n * pow2 (e - 52)"
    and "\<bar>v\<bar> < 2 ^ 1024" and "v \<noteq> 0"
  shows "rnd x = Fin v"
proof -
  have e: "expo x = e" using assms(1-3) by (rule expo_eq)
  have x: "x \<noteq> 0" using assms(1) pow2_pos [of e] by linarith
  have n: "nearest x = v" by (simp add: nearest_def e assms(4,5))
  show ?thesis using x assms(6,7) by (simp add: rnd_def n)
qed

lemma rnd_0 [simp]: "rnd 0 = Fin 0"
  by (simp add: rnd_def)

lemma rnd_1 [simp]: "rnd 1 = Fin 1"
  using rnd_int [of 1] by simp

lemma rnd_180 [simp]: "rnd 180 = Fin 180"
  using rnd_int [of 180] by simp

lemma rnd_half [simp]: "rnd (1 / 2) = Fin (1 / 2)"
  by (rule rnd_exact [of _ 1 "- 1"]) (simp_all add: pow2_def)

lemma rnd_pow2:
  assumes "- 1074 \<le> k" "k \<le> 1023"
  shows "rnd (pow2 k) = Fin (pow2 k)"
proof (rule rnd_exact [of _ 1 k])
  have "pow2 k \<le> pow2 1023" using assms(2) by (rule pow2_mono)
  also have "\<dots> < 2 ^ 1024" by (simp add: pow2_def)
  finally show "\<bar>pow2 k\<bar> < 2 ^ 1024" by (simp add: abs_of_pos)
qed (use assms in simp_all)

lemma pow2_pred: "pow2 z / 2 = pow2 (z - 1)"
  using pow2_add [of "z - 1" 1] by (simp add: pow2_def [of 1])

lemma pow2_floor: "0 \<le> k \<Longrightarrow> real_of_int \<lfloor>pow2 k\<rfloor> = pow2 k"
  by (simp add: pow2_nat)

subsection \<open>A loop whose counter does not advance\<close>

text \<open>
  A loop over \<open>y\<close> whose condition holds and whose \<open>y++\<close> leaves \<open>y\<close> as it is never ends.
\<close>

lemma none_admissible:
  "option.admissible (\<lambda>f. \<forall>x. S x \<longrightarrow> f x = None)"
  by (auto simp: ccpo.admissible_def fun_lub_def flat_lub_def)

lemma loop_y_stuck:
  assumes "jle y yend" "jadd y (Fin 1) = y"
  shows "loop_y P z x yend y urls = None"
proof -
  have "\<forall>P z x yend y urls. jle y yend \<and> jadd y (Fin 1) = y \<longrightarrow> loop_y P z x yend y urls = None"
  proof (rule loop_y.fixp_induct)
    show "option.admissible (\<lambda>f. \<forall>P z x yend y urls. jle y yend \<and> jadd y (Fin 1) = y \<longrightarrow>
        curry (curry (curry (curry (curry f)))) P z x yend y urls = None)"
      using none_admissible [of "\<lambda>a. case a of (((((P, z), x), yend), y), urls) \<Rightarrow>
          jle y yend \<and> jadd y (Fin 1) = y"]
      by (simp add: split_paired_all)
  qed simp_all
  with assms show ?thesis by blast
qed

subsection \<open>Loops over safe integers\<close>

text \<open>
  As long as the bounds are safe integers every \<open>++\<close> is exact, the loops end, and the
  text of each number in a URL is the decimal text of an integer.
\<close>

lemma safe_intD:
  assumes "safe_int a"
  shows "a = Fin (of_int (int_of a))" "- (2 ^ 53) \<le> int_of a" "int_of a < 2 ^ 53"
proof -
  from assms obtain r where a: "a = Fin r" and r: "r = of_int \<lfloor>r\<rfloor>" "\<bar>r\<bar> < 2 ^ 53"
    by (cases a) auto
  show "a = Fin (of_int (int_of a))" using a r(1) by simp
  have "\<bar>real_of_int \<lfloor>r\<rfloor>\<bar> < real_of_int (2 ^ 53)" using r by simp
  then have "\<bar>\<lfloor>r\<rfloor>\<bar> < 2 ^ 53" by (simp only: of_int_abs [symmetric] of_int_less_iff)
  then have "- (2 ^ 53) \<le> \<lfloor>r\<rfloor>" "\<lfloor>r\<rfloor> < 2 ^ 53" by linarith+
  then show "- (2 ^ 53) \<le> int_of a" "int_of a < 2 ^ 53" by (simp_all only: a int_of.simps)
qed

lemma js_text_int: "\<bar>k\<bar> \<le> 2 ^ 53 \<Longrightarrow> js_text P (Fin (of_int k)) = show_int k"
proof -
  assume "\<bar>k\<bar> \<le> 2 ^ 53"
  then have "\<bar>k\<bar> < 10 ^ 21" by simp
  then have "real_of_int \<bar>k\<bar> < real_of_int (10 ^ 21)" by (simp only: of_int_less_iff)
  then show ?thesis by simp
qed

lemma js_tile_url_int:
  "\<bar>z\<bar> \<le> 2 ^ 53 \<Longrightarrow> \<bar>y\<bar> \<le> 2 ^ 53 \<Longrightarrow> \<bar>x\<bar> \<le> 2 ^ 53 \<Longrightarrow>
     js_tile_url P (Fin (of_int z)) (Fin (of_int y)) (Fin (of_int x)) = tile_url z y x"
  by (simp only: js_tile_url_def tile_url_def js_text_int)

lemma loop_y_returns:
  assumes "- (2 ^ 53) \<le> y" "yend < 2 ^ 53"
  shows "loop_y P z x (Fin (of_int yend)) (Fin (of_int y)) urls =
           Some (urls @ map (\<lambda>y. js_tile_url P z (Fin (of_int y)) x) [y..yend])"
  using assms
proof (induction "nat (yend + 1 - y)" arbitrary: y urls)
  case 0
  then have "\<not> y \<le> yend" by simp
  then show ?case
    by (subst loop_y.simps) simp
next
  case (Suc n)
  then have le: "y \<le> yend" by linarith
  have "jadd (Fin (of_int y)) (Fin 1) = Fin (of_int (y + 1))"
    using Suc.prems le by (intro inc_int) linarith+
  then have inc: "rnd (real_of_int y + 1) = Fin (real_of_int y + 1)"
    by simp
  have n: "n = nat (yend + 1 - (y + 1))" using Suc.hyps(2) by linarith
  have up: "[y..yend] = y # [y + 1..yend]" using le by (simp add: upto_rec1)
  show ?case
    apply (subst loop_y.simps)
    using le Suc.hyps(1) [OF n, of "urls @ [js_tile_url P z (Fin (of_int y)) x]"] Suc.prems
    apply (simp add: inc up)
    done
qed

lemma loop_x_returns:
  assumes "- (2 ^ 53) \<le> x" "xend < 2 ^ 53" "- (2 ^ 53) \<le> ystart" "yend < 2 ^ 53"
  shows "loop_x P z (Fin (of_int ystart)) (Fin (of_int yend)) (Fin (of_int xend)) (Fin (of_int x)) urls =
           Some (urls @ concat (map (\<lambda>x. map (\<lambda>y. js_tile_url P z (Fin (of_int y)) (Fin (of_int x)))
                                           [ystart..yend]) [x..xend]))"
  using assms(1,2)
proof (induction "nat (xend + 1 - x)" arbitrary: x urls)
  case 0
  then have "\<not> x \<le> xend" by simp
  then show ?case
    by (subst loop_x.simps) simp
next
  case (Suc n)
  then have le: "x \<le> xend" by linarith
  have "jadd (Fin (of_int x)) (Fin 1) = Fin (of_int (x + 1))"
    using Suc.prems le by (intro inc_int) linarith+
  then have inc: "rnd (real_of_int x + 1) = Fin (real_of_int x + 1)"
    by simp
  have n: "n = nat (xend + 1 - (x + 1))" using Suc.hyps(2) by linarith
  have up: "[x..xend] = x # [x + 1..xend]" using le by (simp add: upto_rec1)
  have b: "- (2 ^ 53) \<le> x + 1" using Suc.prems by linarith
  show ?case
    apply (subst loop_x.simps)
    using le Suc.hyps(1) [OF n b Suc.prems(2)]
    apply (simp add: inc up loop_y_returns [OF assms(3,4)])
    done
qed

lemma latLngToTile_projection:
  "latLngToTile P la lng zoom = \<lparr>tile_x = slippy_x P lng zoom, tile_y = mercator_y P la zoom\<rparr>"
  by (simp add: latLngToTile_def slippy_x_def mercator_y_def)

lemma zoom_returns:
  assumes s: "safe_zoom P b z" and z: "0 \<le> z" "z < 2 ^ 53"
  shows "loop_x P (Fin (of_int z))
           (tile_y (latLngToTile P (north b) (east b) (Fin (of_int z))))
           (tile_y (latLngToTile P (south b) (west b) (Fin (of_int z))))
           (tile_x (latLngToTile P (north b) (east b) (Fin (of_int z))))
           (tile_x (latLngToTile P (south b) (west b) (Fin (of_int z)))) urls =
         Some (urls @ map url_of (zoom_tiles P b z))"
proof -
  let ?Z = "Fin (of_int z)"
  let ?x0 = "int_of (slippy_x P (west b) ?Z)" and ?x1 = "int_of (slippy_x P (east b) ?Z)"
  let ?y1 = "int_of (mercator_y P (north b) ?Z)" and ?y0 = "int_of (mercator_y P (south b) ?Z)"
  from s have sx0: "safe_int (slippy_x P (west b) ?Z)" and sx1: "safe_int (slippy_x P (east b) ?Z)"
    and sy1: "safe_int (mercator_y P (north b) ?Z)" and sy0: "safe_int (mercator_y P (south b) ?Z)"
    by (simp_all add: safe_zoom_def)
  note x0 = safe_intD [OF sx0] and x1 = safe_intD [OF sx1]
    and y1 = safe_intD [OF sy1] and y0 = safe_intD [OF sy0]
  have run: "loop_x P ?Z (Fin (of_int ?y1)) (Fin (of_int ?y0)) (Fin (of_int ?x1)) (Fin (of_int ?x0)) urls =
      Some (urls @ concat (map (\<lambda>x. map (\<lambda>y. js_tile_url P ?Z (Fin (of_int y)) (Fin (of_int x)))
                                      [?y1..?y0]) [?x0..?x1]))"
    by (rule loop_x_returns [OF x0(2) x1(3) y1(2) y0(3)])
  have url: "js_tile_url P ?Z (Fin (of_int y)) (Fin (of_int x)) = tile_url z y x"
    if "x \<in> set [?x0..?x1]" "y \<in> set [?y1..?y0]" for x y
  proof (rule js_tile_url_int)
    show "\<bar>z\<bar> \<le> 2 ^ 53" using z by linarith
    have "?y1 \<le> y" "y \<le> ?y0" using that(2) by simp_all
    with y1(2) y0(3) show "\<bar>y\<bar> \<le> 2 ^ 53" by linarith
    have "?x0 \<le> x" "x \<le> ?x1" using that(1) by simp_all
    with x0(2) x1(3) show "\<bar>x\<bar> \<le> 2 ^ 53" by linarith
  qed
  have "concat (map (\<lambda>x. map (\<lambda>y. js_tile_url P ?Z (Fin (of_int y)) (Fin (of_int x)))
                                      [?y1..?y0]) [?x0..?x1])
      = concat (map (\<lambda>x. map (\<lambda>y. tile_url z y x) [?y1..?y0]) [?x0..?x1])"
    by (intro arg_cong [where f = concat] map_cong refl url)
  also have "\<dots> = map url_of (zoom_tiles P b z)"
    by (simp add: zoom_tiles_def url_of_def List.product_concat_map map_concat comp_def)
  finally have list: "concat (map (\<lambda>x. map (\<lambda>y. js_tile_url P ?Z (Fin (of_int y)) (Fin (of_int x)))
                                      [?y1..?y0]) [?x0..?x1]) = map url_of (zoom_tiles P b z)" .
  show ?thesis
    unfolding latLngToTile_projection tile.simps
    by (subst x0(1), subst x1(1), subst y0(1), subst y1(1)) (simp only: run list)
qed

lemma loop_z_returns:
  assumes m: "m < 2 ^ 53" and z: "0 \<le> z"
    and safe: "\<forall>z' \<in> {z..\<lfloor>m\<rfloor>}. safe_zoom P b z'"
  shows "loop_z P b (Fin m) (Fin (of_int z)) urls =
           Some (urls @ concat (map (\<lambda>z. map url_of (zoom_tiles P b z)) [z..\<lfloor>m\<rfloor>]))"
  using z safe
proof (induction "nat (\<lfloor>m\<rfloor> + 1 - z)" arbitrary: z urls)
  case 0
  then have "\<not> z \<le> \<lfloor>m\<rfloor>" by simp
  then have "\<not> real_of_int z \<le> m" by (simp add: le_floor_iff)
  with \<open>\<not> z \<le> \<lfloor>m\<rfloor>\<close> show ?case
    by (subst loop_z.simps) simp
next
  case (Suc n)
  then have le: "z \<le> \<lfloor>m\<rfloor>" by linarith
  then have jle: "real_of_int z \<le> m" by (simp add: le_floor_iff)
  have fm: "\<lfloor>m\<rfloor> < 2 ^ 53" using m by (simp add: floor_less_iff)
  have zb: "z < 2 ^ 53" using le fm by linarith
  have "jadd (Fin (of_int z)) (Fin 1) = Fin (of_int (z + 1))"
    using Suc.prems(1) zb by (intro inc_int) linarith+
  then have inc: "rnd (real_of_int z + 1) = Fin (real_of_int z + 1)"
    by simp
  have n: "n = nat (\<lfloor>m\<rfloor> + 1 - (z + 1))" using Suc.hyps(2) by linarith
  have up: "[z..\<lfloor>m\<rfloor>] = z # [z + 1..\<lfloor>m\<rfloor>]" using le by (simp add: upto_rec1)
  have sz: "safe_zoom P b z" using Suc.prems(2) le by simp
  have rest: "\<forall>z' \<in> {z + 1..\<lfloor>m\<rfloor>}. safe_zoom P b z'" using Suc.prems(2) by simp
  have z1: "0 \<le> z + 1" using Suc.prems(1) by simp
  note ih = Suc.hyps(1) [OF n z1 rest]
  show ?case
    apply (subst loop_z.simps)
    apply (simp only: jle.simps jle if_True zoom_returns [OF sz Suc.prems(1) zb] Option.bind.simps)
    using ih apply (simp add: inc up)
    done
qed

subsection \<open>Different tiles have different URLs\<close>

lemma digits_distinct: "distinct ''0123456789''"
  by simp

lemma digit_char_inj: "d < 10 \<Longrightarrow> e < 10 \<Longrightarrow> digit_char d = digit_char e \<Longrightarrow> d = e"
  using nth_eq_iff_index_eq [OF digits_distinct, of d e] by (simp add: digit_char_def)

lemma digit_char_mem: "d < 10 \<Longrightarrow> digit_char d \<in> set ''0123456789''"
  unfolding digit_char_def by (rule nth_mem) simp

lemma show_nat_small: "n < 10 \<Longrightarrow> show_nat n = [digit_char n]"
  by (subst show_nat.simps) simp

lemma show_nat_big: "\<not> n < 10 \<Longrightarrow> show_nat n = show_nat (n div 10) @ [digit_char (n mod 10)]"
  by (subst show_nat.simps) simp

lemma show_nat_digits: "set (show_nat n) \<subseteq> set ''0123456789''"
proof (induction n rule: show_nat.induct)
  case (1 n)
  show ?case
  proof (cases "n < 10")
    case True
    then show ?thesis using digit_char_mem [of n] by (simp add: show_nat_small)
  next
    case False
    then show ?thesis using 1 digit_char_mem [of "n mod 10"] by (simp add: show_nat_big)
  qed
qed

lemma show_nat_nonempty: "show_nat n \<noteq> []"
  by (cases "n < 10") (simp_all add: show_nat_small show_nat_big)

lemma show_nat_nonempty': "[] \<noteq> show_nat n"
  using show_nat_nonempty [of n] by simp

lemma show_nat_inj: "show_nat m = show_nat n \<Longrightarrow> m = n"
proof (induction m arbitrary: n rule: show_nat.induct)
  case (1 m)
  show ?case
  proof (cases "m < 10")
    case m: True
    show ?thesis
    proof (cases "n < 10")
      case True
      with m 1(2) have "digit_char m = digit_char n" by (simp add: show_nat_small)
      with m True show ?thesis by (rule digit_char_inj)
    next
      case False
      with m 1(2) show ?thesis
        by (simp add: show_nat_small show_nat_big show_nat_nonempty show_nat_nonempty')
    qed
  next
    case m: False
    show ?thesis
    proof (cases "n < 10")
      case True
      with m 1(2) show ?thesis
        by (simp add: show_nat_small show_nat_big show_nat_nonempty show_nat_nonempty')
    next
      case False
      with m 1(2) have eq: "show_nat (m div 10) = show_nat (n div 10)"
        and d: "digit_char (m mod 10) = digit_char (n mod 10)"
        by (simp_all add: show_nat_big)
      from 1(1) [OF m eq] have q: "m div 10 = n div 10" .
      have r: "m mod 10 = n mod 10"
        by (rule digit_char_inj [OF _ _ d]) simp_all
      have "m = 10 * (m div 10) + m mod 10" by simp
      also have "\<dots> = 10 * (n div 10) + n mod 10" by (simp only: q r)
      also have "\<dots> = n" by simp
      finally show ?thesis .
    qed
  qed
qed

lemma show_int_chars: "CHR ''/'' \<notin> set (show_int i)"
  using show_nat_digits [of "nat i"] show_nat_digits [of "nat (- i)"]
  by (auto simp: show_int_def)

lemma show_nat_no_minus: "show_nat n \<noteq> CHR ''-'' # s"
proof
  assume "show_nat n = CHR ''-'' # s"
  then have "CHR ''-'' \<in> set (show_nat n)" by simp
  with show_nat_digits [of n] show False by auto
qed

lemma show_int_inj: "show_int i = show_int j \<Longrightarrow> i = j"
proof -
  assume eq: "show_int i = show_int j"
  consider "i < 0" "j < 0" | "i < 0" "\<not> j < 0" | "\<not> i < 0" "j < 0" | "\<not> i < 0" "\<not> j < 0"
    by blast
  then show ?thesis
  proof cases
    case 1
    with eq have "show_nat (nat (- i)) = show_nat (nat (- j))" by (simp add: show_int_def)
    then have "nat (- i) = nat (- j)" by (rule show_nat_inj)
    with 1 show ?thesis by simp
  next
    case 2
    with eq have "show_nat (nat j) = CHR ''-'' # show_nat (nat (- i))" by (simp add: show_int_def)
    with show_nat_no_minus show ?thesis by blast
  next
    case 3
    with eq have "show_nat (nat i) = CHR ''-'' # show_nat (nat (- j))" by (simp add: show_int_def)
    with show_nat_no_minus show ?thesis by blast
  next
    case 4
    with eq have "show_nat (nat i) = show_nat (nat j)" by (simp add: show_int_def)
    then have "nat i = nat j" by (rule show_nat_inj)
    with 4 show ?thesis by simp
  qed
qed

lemma split_at_sep:
  "c \<notin> set a \<Longrightarrow> c \<notin> set a' \<Longrightarrow> a @ c # r = a' @ c # r' \<Longrightarrow> a = a' \<and> r = r'"
proof (induction a arbitrary: a')
  case Nil
  then show ?case by (cases a') auto
next
  case (Cons h t)
  then show ?case by (cases a') auto
qed

lemma tile_url_inj:
  assumes "tile_url z y x = tile_url z' y' x'"
  shows "z = z' \<and> y = y' \<and> x = x'"
proof -
  from assms
  have a: "show_int z @ CHR ''/'' # (show_int y @ CHR ''/'' # show_int x)
         = show_int z' @ CHR ''/'' # (show_int y' @ CHR ''/'' # show_int x')"
    by (simp only: tile_url_def same_append_eq append_Cons append_Nil list.inject simp_thms)
  note s1 = split_at_sep [OF show_int_chars show_int_chars a]
  note s2 = split_at_sep [OF show_int_chars show_int_chars conjunct2 [OF s1]]
  from conjunct1 [OF s1] have "z = z'" by (rule show_int_inj)
  moreover from conjunct1 [OF s2] have "y = y'" by (rule show_int_inj)
  moreover from conjunct2 [OF s2] have "x = x'" by (rule show_int_inj)
  ultimately show ?thesis by simp
qed

lemma url_of_inj: "inj url_of"
  by (rule injI) (auto simp: url_of_def dest: tile_url_inj)

subsection \<open>The list of URLs\<close>

lemma distinct_zoom_tiles: "distinct (zoom_tiles P b z)"
  by (simp add: zoom_tiles_def distinct_map distinct_product inj_on_def)

lemma fst_zoom_tiles: "t \<in> set (zoom_tiles P b z) \<Longrightarrow> fst t = z"
  by (auto simp: zoom_tiles_def)

lemma distinct_all_tiles: "distinct zs \<Longrightarrow> distinct (concat (map (zoom_tiles P b) zs))"
proof (induction zs)
  case Nil
  then show ?case by simp
next
  case (Cons z zs)
  then show ?case
    by (auto simp: distinct_zoom_tiles dest!: fst_zoom_tiles)
qed

lemma set_all_tiles:
  "set (concat (map (zoom_tiles P b) [14..k])) =
     {(z, x, y). 14 \<le> z \<and> z \<le> k
        \<and> int_of (slippy_x P (west b) (Fin (of_int z))) \<le> x
        \<and> x \<le> int_of (slippy_x P (east b) (Fin (of_int z)))
        \<and> int_of (mercator_y P (north b) (Fin (of_int z))) \<le> y
        \<and> y \<le> int_of (mercator_y P (south b) (Fin (of_int z)))}"
  by (auto simp: zoom_tiles_def)

lemma getTileUrls_returns:
  assumes "m < 2 ^ 53" and "\<forall>z \<in> {14..\<lfloor>m\<rfloor>}. safe_zoom P b z"
  shows "getTileUrls P b (Fin m) = Some (map url_of (concat (map (zoom_tiles P b) [14..\<lfloor>m\<rfloor>])))"
proof -
  have "loop_z P b (Fin m) (Fin (of_int 14)) [] =
      Some ([] @ concat (map (\<lambda>z. map url_of (zoom_tiles P b z)) [14..\<lfloor>m\<rfloor>]))"
    by (rule loop_z_returns [OF assms(1) _ assms(2)]) simp
  then show ?thesis
    by (simp add: getTileUrls_def map_concat comp_def)
qed

text \<open>The corner tiles of the sample box at zoom 14, step by step in double arithmetic.\<close>

lemma sample_x_west: "slippy_x sample_platform (Fin (- 105)) (Fin 14) = Fin 3413"
proof -
  have p: "Math_pow2 sample_platform (Fin 14) = Fin 16384"
    by (simp add: sample_platform_def)
  have a: "jadd (Fin (- 105)) (Fin 180) = Fin 75"
    by (simp add: Math_PI_def jsub_def jmul_Fin jdiv_Fin, rule rnd_eval [where e = "6" and n = "5277655813324800"])
       (simp_all add: pow2_def round_even_def)
  have b: "jdiv (Fin 75) (Fin 360) = Fin (7505999378950827 / 36028797018963968)"
    by (simp add: Math_PI_def jsub_def jmul_Fin jdiv_Fin, rule rnd_eval [where e = "(- 3)" and n = "7505999378950827"])
       (simp_all add: pow2_def round_even_def)
  have c: "jmul (Fin (7505999378950827 / 36028797018963968)) (Fin 16384) = Fin (7505999378950827 / 2199023255552)"
    by (simp add: Math_PI_def jsub_def jmul_Fin jdiv_Fin, rule rnd_eval [where e = "11" and n = "7505999378950827"])
       (simp_all add: pow2_def round_even_def)
  show ?thesis
    by (simp only: slippy_x_def p a b c Math_floor.simps) simp
qed

lemma sample_x_east: "slippy_x sample_platform (Fin (- (3359 / 32))) (Fin 14) = Fin 3414"
proof -
  have p: "Math_pow2 sample_platform (Fin 14) = Fin 16384"
    by (simp add: sample_platform_def)
  have a: "jadd (Fin (- (3359 / 32))) (Fin 180) = Fin (2401 / 32)"
    by (simp add: Math_PI_def jsub_def jmul_Fin jdiv_Fin, rule rnd_eval [where e = "6" and n = "5279854836580352"])
       (simp_all add: pow2_def round_even_def)
  have b: "jdiv (Fin (2401 / 32)) (Fin 360) = Fin (938640859836507 / 4503599627370496)"
    by (simp add: Math_PI_def jsub_def jmul_Fin jdiv_Fin, rule rnd_eval [where e = "(- 3)" and n = "7509126878692056"])
       (simp_all add: pow2_def round_even_def)
  have c: "jmul (Fin (938640859836507 / 4503599627370496)) (Fin 16384) = Fin (938640859836507 / 274877906944)"
    by (simp add: Math_PI_def jsub_def jmul_Fin jdiv_Fin, rule rnd_eval [where e = "11" and n = "7509126878692056"])
       (simp_all add: pow2_def round_even_def)
  show ?thesis
    by (simp only: slippy_x_def p a b c Math_floor.simps) simp
qed

lemma sample_y_south: "mercator_y sample_platform (Fin 39) (Fin 14) = Fin 6261"
proof -
  have p: "Math_pow2 sample_platform (Fin 14) = Fin 16384"
    by (simp add: sample_platform_def)
  have u: "jmul (Fin 39) (Math_PI) = Fin (8621727260284661 / 70368744177664)"
    by (simp add: Math_PI_def jsub_def jmul_Fin jdiv_Fin, rule rnd_eval [where e = "6" and n = "8621727260284661"])
       (simp_all add: pow2_def round_even_def)
  have phi: "jdiv (Fin (8621727260284661 / 70368744177664)) (Fin 180) = Fin (6131006051757981 / 9007199254740992)"
    by (simp add: Math_PI_def jsub_def jmul_Fin jdiv_Fin, rule rnd_eval [where e = "(- 1)" and n = "6131006051757981"])
       (simp_all add: pow2_def round_even_def)
  have t: "Math_tan sample_platform (Fin (6131006051757981 / 9007199254740992)) = Fin (3646943070147611 / 4503599627370496)"
    by (simp add: sample_platform_def)
  have co: "Math_cos sample_platform (Fin (6131006051757981 / 9007199254740992)) = Fin (874988565607525 / 1125899906842624)"
    by (simp add: sample_platform_def)
  have sec: "jdiv (Fin 1) (Fin (874988565607525 / 1125899906842624)) = Fin (5795049901471889 / 4503599627370496)"
    by (simp add: Math_PI_def jsub_def jmul_Fin jdiv_Fin, rule rnd_eval [where e = "0" and n = "5795049901471889"])
       (simp_all add: pow2_def round_even_def)
  have sm: "jadd (Fin (3646943070147611 / 4503599627370496)) (Fin (5795049901471889 / 4503599627370496)) = Fin (2360498242904875 / 1125899906842624)"
    by (simp add: Math_PI_def jsub_def jmul_Fin jdiv_Fin, rule rnd_eval [where e = "1" and n = "4720996485809750"])
       (simp_all add: pow2_def round_even_def)
  have l: "Math_log sample_platform (Fin (2360498242904875 / 1125899906842624)) = Fin (3333970144391323 / 4503599627370496)"
    by (simp add: sample_platform_def)
  have q: "jdiv (Fin (3333970144391323 / 4503599627370496)) (Math_PI) = Fin (4244942628805433 / 18014398509481984)"
    by (simp add: Math_PI_def jsub_def jmul_Fin jdiv_Fin, rule rnd_eval [where e = "(- 3)" and n = "8489885257610866"])
       (simp_all add: pow2_def round_even_def)
  have d: "jsub (Fin 1) (Fin (4244942628805433 / 18014398509481984)) = Fin (1721181985084569 / 2251799813685248)"
    by (simp add: Math_PI_def jsub_def jmul_Fin jdiv_Fin, rule rnd_eval [where e = "(- 1)" and n = "6884727940338276"])
       (simp_all add: pow2_def round_even_def)
  have h: "jdiv (Fin (1721181985084569 / 2251799813685248)) (Fin 2) = Fin (1721181985084569 / 4503599627370496)"
    by (simp add: Math_PI_def jsub_def jmul_Fin jdiv_Fin, rule rnd_eval [where e = "(- 2)" and n = "6884727940338276"])
       (simp_all add: pow2_def round_even_def)
  have r: "jmul (Fin (1721181985084569 / 4503599627370496)) (Fin 16384) = Fin (1721181985084569 / 274877906944)"
    by (simp add: Math_PI_def jsub_def jmul_Fin jdiv_Fin, rule rnd_eval [where e = "12" and n = "6884727940338276"])
       (simp_all add: pow2_def round_even_def)
  show ?thesis
    by (simp only: mercator_y_def p u phi t co sec sm l q d h r Math_floor.simps) simp
qed

lemma sample_y_north: "mercator_y sample_platform (Fin (1249 / 32)) (Fin 14) = Fin 6259"
proof -
  have p: "Math_pow2 sample_platform (Fin 14) = Fin 16384"
    by (simp add: sample_platform_def)
  have u: "jmul (Fin (1249 / 32)) (Math_PI) = Fin (8628635695589377 / 70368744177664)"
    by (simp add: Math_PI_def jsub_def jmul_Fin jdiv_Fin, rule rnd_eval [where e = "6" and n = "8628635695589377"])
       (simp_all add: pow2_def round_even_def)
  have phi: "jdiv (Fin (8628635695589377 / 70368744177664)) (Fin 180) = Fin (6135918716863557 / 9007199254740992)"
    by (simp add: Math_PI_def jsub_def jmul_Fin jdiv_Fin, rule rnd_eval [where e = "(- 1)" and n = "6135918716863557"])
       (simp_all add: pow2_def round_even_def)
  have t: "Math_tan sample_platform (Fin (6135918716863557 / 9007199254740992)) = Fin (7302023881422387 / 9007199254740992)"
    by (simp add: sample_platform_def)
  have co: "Math_cos sample_platform (Fin (6135918716863557 / 9007199254740992)) = Fin (6996815843528955 / 9007199254740992)"
    by (simp add: sample_platform_def)
  have sec: "jdiv (Fin 1) (Fin (6996815843528955 / 9007199254740992)) = Fin (5797611387016845 / 4503599627370496)"
    by (simp add: Math_PI_def jsub_def jmul_Fin jdiv_Fin, rule rnd_eval [where e = "0" and n = "5797611387016845"])
       (simp_all add: pow2_def round_even_def)
  have sm: "jadd (Fin (7302023881422387 / 9007199254740992)) (Fin (5797611387016845 / 4503599627370496)) = Fin (4724311663864019 / 2251799813685248)"
    by (simp add: Math_PI_def jsub_def jmul_Fin jdiv_Fin, rule rnd_eval [where e = "1" and n = "4724311663864019"])
       (simp_all add: pow2_def round_even_def)
  have l: "Math_log sample_platform (Fin (4724311663864019 / 2251799813685248)) = Fin (3337131552156189 / 4503599627370496)"
    by (simp add: sample_platform_def)
  have q: "jdiv (Fin (3337131552156189 / 4503599627370496)) (Math_PI) = Fin (4248967858188693 / 18014398509481984)"
    by (simp add: Math_PI_def jsub_def jmul_Fin jdiv_Fin, rule rnd_eval [where e = "(- 3)" and n = "8497935716377386"])
       (simp_all add: pow2_def round_even_def)
  have d: "jsub (Fin 1) (Fin (4248967858188693 / 18014398509481984)) = Fin (3441357662823323 / 4503599627370496)"
    by (simp add: Math_PI_def jsub_def jmul_Fin jdiv_Fin, rule rnd_eval [where e = "(- 1)" and n = "6882715325646646"])
       (simp_all add: pow2_def round_even_def)
  have h: "jdiv (Fin (3441357662823323 / 4503599627370496)) (Fin 2) = Fin (3441357662823323 / 9007199254740992)"
    by (simp add: Math_PI_def jsub_def jmul_Fin jdiv_Fin, rule rnd_eval [where e = "(- 2)" and n = "6882715325646646"])
       (simp_all add: pow2_def round_even_def)
  have r: "jmul (Fin (3441357662823323 / 9007199254740992)) (Fin 16384) = Fin (3441357662823323 / 549755813888)"
    by (simp add: Math_PI_def jsub_def jmul_Fin jdiv_Fin, rule rnd_eval [where e = "12" and n = "6882715325646646"])
       (simp_all add: pow2_def round_even_def)
  show ?thesis
    by (simp only: mercator_y_def p u phi t co sec sm l q d h r Math_floor.simps) simp
qed

lemma sample_safe: "safe_zoom sample_platform sample_box 14"
  using sample_x_west sample_x_east sample_y_south sample_y_north
  by (simp add: safe_zoom_def sample_box_def)

lemma sample_tiles:
  "zoom_tiles sample_platform sample_box 14 =
     [(14, 3413, 6259), (14, 3413, 6260), (14, 3413, 6261),
      (14, 3414, 6259), (14, 3414, 6260), (14, 3414, 6261)]"
  using sample_x_west sample_x_east sample_y_south sample_y_north
  by (simp add: zoom_tiles_def sample_box_def)



subsection \<open>A run that does not return\<close>

text \<open>
  On the correctly rounded platform the corner tile of the box at \<open>(0, 0)\<close> at zoom \<open>z\<close> is
  \<open>x = y = 2^(z - 1)\<close>: a safe integer up to zoom 53, and \<open>2^53\<close> at zoom 54.
\<close>

lemma zero_corner:
  assumes "1 \<le> z" "z \<le> 1023"
  shows "slippy_x exact_platform (Fin 0) (Fin (of_int z)) = Fin (pow2 (z - 1))"
    and "mercator_y exact_platform (Fin 0) (Fin (of_int z)) = Fin (pow2 (z - 1))"
proof -
  have p: "rnd (2 powr (of_int z)) = Fin (pow2 z)"
    using rnd_pow2 [of z] assms by (simp add: pow2_powr)
  have h: "rnd (pow2 z / 2) = Fin (pow2 (z - 1))"
    using rnd_pow2 [of "z - 1"] assms by (simp add: pow2_pred)
  have "pow2 z \<noteq> 0" by (metis less_irrefl pow2_pos)
  then have nz: "(pow2 z = 0) = False" by simp
  have f: "real_of_int \<lfloor>pow2 (z - 1)\<rfloor> = pow2 (z - 1)"
    using assms by (intro pow2_floor) simp
  show "slippy_x exact_platform (Fin 0) (Fin (of_int z)) = Fin (pow2 (z - 1))"
    by (simp add: slippy_x_def exact_platform_def jdiv_Fin jmul_Fin p h nz f)
  show "mercator_y exact_platform (Fin 0) (Fin (of_int z)) = Fin (pow2 (z - 1))"
    by (simp add: mercator_y_def exact_platform_def Math_PI_def jsub_def jdiv_Fin jmul_Fin p h nz f)
qed

lemma zero_safe:
  assumes "1 \<le> z" "z \<le> 53"
  shows "safe_zoom exact_platform zero_box z"
proof -
  have "pow2 (z - 1) \<le> pow2 52" using assms by (intro pow2_mono) simp
  also have "\<dots> < 2 ^ 53" by (simp add: pow2_def)
  finally have b: "\<bar>pow2 (z - 1)\<bar> < 2 ^ 53" by (simp add: abs_of_pos)
  have f: "real_of_int \<lfloor>pow2 (z - 1)\<rfloor> = pow2 (z - 1)"
    using assms by (intro pow2_floor) simp
  have s: "safe_int (Fin (pow2 (z - 1)))"
    unfolding safe_int.simps by (intro conjI f [symmetric] b)
  show ?thesis
    using assms s by (simp add: safe_zoom_def zero_box_def zero_corner)
qed

lemma zero_stuck: "loop_x exact_platform (Fin 54)
           (tile_y (latLngToTile exact_platform (north zero_box) (east zero_box) (Fin 54)))
           (tile_y (latLngToTile exact_platform (south zero_box) (west zero_box) (Fin 54)))
           (tile_x (latLngToTile exact_platform (north zero_box) (east zero_box) (Fin 54)))
           (tile_x (latLngToTile exact_platform (south zero_box) (west zero_box) (Fin 54))) urls = None"
proof -
  have c: "slippy_x exact_platform (Fin 0) (Fin 54) = Fin 9007199254740992"
    "mercator_y exact_platform (Fin 0) (Fin 54) = Fin 9007199254740992"
    using zero_corner [of 54] by (simp_all add: pow2_def)
  have y: "loop_y exact_platform (Fin 54) (Fin 9007199254740992) (Fin 9007199254740992)
      (Fin 9007199254740992) urls = None"
    by (rule loop_y_stuck) (simp, rule inc_stuck)
  show ?thesis
    unfolding latLngToTile_projection tile.simps
    by (subst loop_x.simps) (simp add: zero_box_def c y)
qed

lemma zero_diverges:
  assumes "14 \<le> z" "z \<le> 54"
  shows "loop_z exact_platform zero_box (Fin 54) (Fin (of_int z)) urls = None"
  using assms
proof (induction "nat (54 - z)" arbitrary: z urls)
  case 0
  then have z: "z = 54" by simp
  show ?case
    unfolding z by (subst loop_z.simps) (simp add: zero_stuck)
next
  case (Suc n)
  then have le: "z \<le> 53" by linarith
  have sz: "safe_zoom exact_platform zero_box z"
    using Suc.prems le by (intro zero_safe) simp_all
  have z0: "0 \<le> z" and zb: "z < 2 ^ 53" using Suc.prems by simp_all
  have "jadd (Fin (of_int z)) (Fin 1) = Fin (of_int (z + 1))"
    using Suc.prems by (intro inc_int) simp_all
  then have inc: "rnd (real_of_int z + 1) = Fin (real_of_int z + 1)"
    by simp
  have n: "n = nat (54 - (z + 1))" using Suc.hyps(2) by linarith
  have j: "real_of_int z \<le> 54" using Suc.prems by simp
  have ih: "loop_z exact_platform zero_box (Fin 54) (Fin (of_int (z + 1))) u = None" for u
    using Suc.hyps(1) [OF n] Suc.prems le by simp
  show ?case
    apply (subst loop_z.simps)
    apply (simp only: jle.simps j if_True zoom_returns [OF sz z0 zb] Option.bind.simps)
    using ih apply (simp add: inc)
    done
qed


end
